theory Spec2Isabelle
  imports Complex_Main "HOL-Library.Word"
begin

section \<open>Tensors\<close>

text \<open>
  The functions of \<^verbatim>\<open>quality/miq.py\<close> work on framework tensors. A tensor is modelled
  by its fully defined shape and its elements, stored as nested arrays: one level of
  \<open>Array\<close> per dimension, \<open>Scalar\<close> at the leaves. The element types are the ones the
  code distinguishes with \<^verbatim>\<open>dtype.is_floating\<close> and \<^verbatim>\<open>dtype.is_integer\<close>: two floating
  types and two signed integer types. Floating-point numbers are idealised as real
  numbers (no rounding, no infinities, no NaN); integers are machine words and wrap.
\<close>

datatype 'a ndarray = Scalar 'a | Array "'a ndarray list"

datatype dtype = DT_FLOAT | DT_DOUBLE | DT_INT32 | DT_INT64

datatype payload =
    F32 "real ndarray"
  | F64 "real ndarray"
  | I32 "32 word ndarray"
  | I64 "64 word ndarray"

record tensor =
  shape :: "nat list"
  data :: payload

datatype error =
    IncompatibleShapes  \<comment> \<open>the \<^verbatim>\<open>ValueError\<close> raised by \<^verbatim>\<open>ranked_probability_score\<close> itself\<close>
  | InvalidAxis         \<comment> \<open>the framework rejects an axis outside \<open>[-rank, rank)\<close>\<close>
  | DTypeMismatch       \<comment> \<open>the framework rejects a binary operation on two dtypes\<close>
  | NotBroadcastable    \<comment> \<open>the framework rejects a binary operation on two shapes\<close>
  | UnsupportedModel int  \<comment> \<open>the \<^verbatim>\<open>ValueError\<close> raised by \<^verbatim>\<open>miq_model\<close>\<close>
  | InvalidInputShape   \<comment> \<open>a framework function rejects the shape of its input\<close>
  | UnsupportedDType    \<comment> \<open>a framework function rejects the dtype of its input\<close>
  | EmptyMean           \<comment> \<open>the mean of no elements: NaN, a value the idealised numbers lack\<close>

fun is_floating :: "dtype \<Rightarrow> bool" where
  "is_floating DT_FLOAT = True"
| "is_floating DT_DOUBLE = True"
| "is_floating _ = False"

fun is_integer :: "dtype \<Rightarrow> bool" where
  "is_integer DT_INT32 = True"
| "is_integer DT_INT64 = True"
| "is_integer _ = False"

fun payload_dtype :: "payload \<Rightarrow> dtype" where
  "payload_dtype (F32 a) = DT_FLOAT"
| "payload_dtype (F64 a) = DT_DOUBLE"
| "payload_dtype (I32 a) = DT_INT32"
| "payload_dtype (I64 a) = DT_INT64"

definition dtype :: "tensor \<Rightarrow> dtype" where
  "dtype t = payload_dtype (data t)"

text \<open>An array conforms to a shape when every level has the length the shape gives.\<close>

fun conforms :: "nat list \<Rightarrow> 'a ndarray \<Rightarrow> bool" where
  "conforms [] (Scalar x) = True"
| "conforms (n # ns) (Array xs) = (length xs = n \<and> list_all (conforms ns) xs)"
| "conforms _ _ = False"

fun payload_conforms :: "nat list \<Rightarrow> payload \<Rightarrow> bool" where
  "payload_conforms s (F32 a) = conforms s a"
| "payload_conforms s (F64 a) = conforms s a"
| "payload_conforms s (I32 a) = conforms s a"
| "payload_conforms s (I64 a) = conforms s a"

definition well_formed :: "tensor \<Rightarrow> bool" where
  "well_formed t = payload_conforms (shape t) (data t)"

text \<open>Reading one element; an index is valid when it is below the shape everywhere.\<close>

definition valid_index :: "nat list \<Rightarrow> nat list \<Rightarrow> bool" where
  "valid_index s idx = list_all2 (<) idx s"

fun elem :: "'a::zero ndarray \<Rightarrow> nat list \<Rightarrow> 'a" where
  "elem (Scalar x) [] = x"
| "elem (Array xs) (i # is) = (if i < length xs then elem (xs ! i) is else 0)"
| "elem _ _ = 0"

subsection \<open>Static shapes\<close>

text \<open>
  The framework's \<^verbatim>\<open>TensorShape\<close>: the rank may be unknown (\<open>None\<close>), and so may each
  dimension. \<^verbatim>\<open>is_compatible_with\<close> holds when some tensor could have both shapes. The
  tensors of this model carry their elements, so \<^verbatim>\<open>get_shape\<close> is fully defined.
\<close>

type_synonym tensor_shape = "nat option list option"

fun dimension_compatible :: "nat option \<Rightarrow> nat option \<Rightarrow> bool" where
  "dimension_compatible (Some m) (Some n) = (m = n)"
| "dimension_compatible _ _ = True"

fun is_compatible_with :: "tensor_shape \<Rightarrow> tensor_shape \<Rightarrow> bool" where
  "is_compatible_with (Some ds) (Some es) =
     (length ds = length es \<and> list_all2 dimension_compatible ds es)"
| "is_compatible_with _ _ = True"

definition get_shape :: "tensor \<Rightarrow> tensor_shape" where
  "get_shape t = Some (map Some (shape t))"

subsection \<open>Elementwise operations\<close>

fun map_nd :: "('a \<Rightarrow> 'b) \<Rightarrow> 'a ndarray \<Rightarrow> 'b ndarray" where
  "map_nd f (Scalar x) = Scalar (f x)"
| "map_nd f (Array xs) = Array (map (map_nd f) xs)"

fun map2_nd :: "('a \<Rightarrow> 'b \<Rightarrow> 'c) \<Rightarrow> 'a ndarray \<Rightarrow> 'b ndarray \<Rightarrow> 'c ndarray"
  and map2_nds :: "('a \<Rightarrow> 'b \<Rightarrow> 'c) \<Rightarrow> 'a ndarray list \<Rightarrow> 'b ndarray list \<Rightarrow> 'c ndarray list"
  where
  "map2_nd f (Scalar x) (Scalar y) = Scalar (f x y)"
| "map2_nd f (Array xs) (Array ys) = Array (map2_nds f xs ys)"
| "map2_nd f _ _ = Array []"
| "map2_nds f (x # xs) (y # ys) = map2_nd f x y # map2_nds f xs ys"
| "map2_nds f _ _ = []"

fun full :: "nat list \<Rightarrow> 'a \<Rightarrow> 'a ndarray" where
  "full [] v = Scalar v"
| "full (n # ns) v = Array (replicate n (full ns v))"

text \<open>
  \<^verbatim>\<open>tf.cast\<close>. The code casts integer targets to a floating type only; that conversion
  is exact on the idealised numbers. The other directions are given for completeness
  (floating to integer truncates towards zero, integer to integer keeps the signed value
  modulo the width).
\<close>

definition trunc_int :: "real \<Rightarrow> int" where
  "trunc_int x = (if 0 \<le> x then \<lfloor>x\<rfloor> else \<lceil>x\<rceil>)"

fun to_reals :: "payload \<Rightarrow> real ndarray" where
  "to_reals (F32 a) = a"
| "to_reals (F64 a) = a"
| "to_reals (I32 a) = map_nd (\<lambda>w. real_of_int (sint w)) a"
| "to_reals (I64 a) = map_nd (\<lambda>w. real_of_int (sint w)) a"

fun to_ints :: "payload \<Rightarrow> int ndarray" where
  "to_ints (F32 a) = map_nd trunc_int a"
| "to_ints (F64 a) = map_nd trunc_int a"
| "to_ints (I32 a) = map_nd sint a"
| "to_ints (I64 a) = map_nd sint a"

fun cast_payload :: "payload \<Rightarrow> dtype \<Rightarrow> payload" where
  "cast_payload p DT_FLOAT = F32 (to_reals p)"
| "cast_payload p DT_DOUBLE = F64 (to_reals p)"
| "cast_payload p DT_INT32 = I32 (map_nd word_of_int (to_ints p))"
| "cast_payload p DT_INT64 = I64 (map_nd word_of_int (to_ints p))"

definition cast :: "tensor \<Rightarrow> dtype \<Rightarrow> tensor" where
  "cast x dt = x\<lparr>data := cast_payload (data x) dt\<rparr>"

subsection \<open>Axes\<close>

text \<open>
  An axis argument is an integer in \<open>[-rank, rank)\<close>; a negative one counts from the
  last dimension.
\<close>

definition normalize_axis :: "nat \<Rightarrow> int \<Rightarrow> nat option" where
  "normalize_axis rank axis =
     (if - int rank \<le> axis \<and> axis < int rank
      then Some (nat (if axis < 0 then axis + int rank else axis))
      else None)"

definition remove_axis :: "nat \<Rightarrow> 'a list \<Rightarrow> 'a list" where
  "remove_axis d s = take d s @ drop (Suc d) s"

definition insert_axis :: "nat \<Rightarrow> 'a \<Rightarrow> 'a list \<Rightarrow> 'a list" where
  "insert_axis d j idx = take d idx @ j # drop d idx"

subsection \<open>Cumulative sum and reduction along an axis\<close>

text \<open>
  \<^verbatim>\<open>tf.cumsum(x, axis)\<close> (inclusive, forward): along the axis, every slice is replaced by
  the running sum of the slices up to it. \<^verbatim>\<open>tf.reduce_sum(x, axis)\<close> adds the slices
  along the axis and drops the axis; over an empty axis the sum is zero.
\<close>

fun running :: "'a::plus ndarray \<Rightarrow> 'a ndarray list \<Rightarrow> 'a ndarray list" where
  "running acc [] = []"
| "running acc (x # xs) = (let acc' = map2_nd (+) acc x in acc' # running acc' xs)"

fun cumsum_nd :: "nat \<Rightarrow> 'a::plus ndarray \<Rightarrow> 'a ndarray" where
  "cumsum_nd d (Scalar x) = Scalar x"
| "cumsum_nd 0 (Array []) = Array []"
| "cumsum_nd 0 (Array (x # xs)) = Array (x # running x xs)"
| "cumsum_nd (Suc d) (Array xs) = Array (map (cumsum_nd d) xs)"

fun reduce_sum_nd :: "nat list \<Rightarrow> nat \<Rightarrow> 'a::{plus,zero} ndarray \<Rightarrow> 'a ndarray" where
  "reduce_sum_nd (n # ns) 0 (Array xs) = foldl (map2_nd (+)) (full ns 0) xs"
| "reduce_sum_nd (n # ns) (Suc d) (Array xs) = Array (map (reduce_sum_nd ns d) xs)"
| "reduce_sum_nd _ _ x = x"

fun cumsum_payload :: "nat \<Rightarrow> payload \<Rightarrow> payload" where
  "cumsum_payload d (F32 a) = F32 (cumsum_nd d a)"
| "cumsum_payload d (F64 a) = F64 (cumsum_nd d a)"
| "cumsum_payload d (I32 a) = I32 (cumsum_nd d a)"
| "cumsum_payload d (I64 a) = I64 (cumsum_nd d a)"

definition cumsum :: "tensor \<Rightarrow> int \<Rightarrow> error + tensor" where
  "cumsum x axis =
     (case normalize_axis (length (shape x)) axis of
        None \<Rightarrow> Inl InvalidAxis
      | Some d \<Rightarrow> Inr (x\<lparr>data := cumsum_payload d (data x)\<rparr>))"

fun reduce_sum_payload :: "nat list \<Rightarrow> nat \<Rightarrow> payload \<Rightarrow> payload" where
  "reduce_sum_payload s d (F32 a) = F32 (reduce_sum_nd s d a)"
| "reduce_sum_payload s d (F64 a) = F64 (reduce_sum_nd s d a)"
| "reduce_sum_payload s d (I32 a) = I32 (reduce_sum_nd s d a)"
| "reduce_sum_payload s d (I64 a) = I64 (reduce_sum_nd s d a)"

definition reduce_sum :: "tensor \<Rightarrow> int \<Rightarrow> error + tensor" where
  "reduce_sum x axis =
     (case normalize_axis (length (shape x)) axis of
        None \<Rightarrow> Inl InvalidAxis
      | Some d \<Rightarrow>
          Inr \<lparr>shape = remove_axis d (shape x),
               data = reduce_sum_payload (shape x) d (data x)\<rparr>)"

subsection \<open>Subtraction with broadcasting, and squaring\<close>

text \<open>
  The framework's binary operators take two tensors of one dtype. Their shapes are
  aligned at the last dimension; a dimension of size one, or a missing leading
  dimension, is repeated to the size of the other operand.
\<close>

fun broadcast_dims :: "nat list \<Rightarrow> nat list \<Rightarrow> nat list option" where
  "broadcast_dims [] ys = Some ys"
| "broadcast_dims xs [] = Some xs"
| "broadcast_dims (x # xs) (y # ys) =
     (if x = y \<or> y = 1 then map_option ((#) x) (broadcast_dims xs ys)
      else if x = 1 then map_option ((#) y) (broadcast_dims xs ys)
      else None)"

definition broadcast_shape :: "nat list \<Rightarrow> nat list \<Rightarrow> nat list option" where
  "broadcast_shape s1 s2 = map_option rev (broadcast_dims (rev s1) (rev s2))"

fun broadcast_to :: "nat list \<Rightarrow> nat list \<Rightarrow> 'a ndarray \<Rightarrow> 'a ndarray" where
  "broadcast_to [] src a = a"
| "broadcast_to (n # ns) src a =
     (if length src \<le> length ns then Array (replicate n (broadcast_to ns src a))
      else (case a of
              Scalar v \<Rightarrow> a
            | Array xs \<Rightarrow>
                (if length xs = n then Array (map (broadcast_to ns (tl src)) xs)
                 else (case xs of
                         [x] \<Rightarrow> Array (replicate n (broadcast_to ns (tl src) x))
                       | _ \<Rightarrow> a))))"

definition lift2 ::
  "('a \<Rightarrow> 'a \<Rightarrow> 'a) \<Rightarrow> nat list \<Rightarrow> nat list \<Rightarrow> nat list \<Rightarrow> 'a ndarray \<Rightarrow> 'a ndarray \<Rightarrow> 'a ndarray"
  where
  "lift2 f s sx sy a b = map2_nd f (broadcast_to s sx a) (broadcast_to s sy b)"

fun subtract_payload ::
  "nat list \<Rightarrow> nat list \<Rightarrow> nat list \<Rightarrow> payload \<Rightarrow> payload \<Rightarrow> payload option" where
  "subtract_payload s sx sy (F32 a) (F32 b) = Some (F32 (lift2 (-) s sx sy a b))"
| "subtract_payload s sx sy (F64 a) (F64 b) = Some (F64 (lift2 (-) s sx sy a b))"
| "subtract_payload s sx sy (I32 a) (I32 b) = Some (I32 (lift2 (-) s sx sy a b))"
| "subtract_payload s sx sy (I64 a) (I64 b) = Some (I64 (lift2 (-) s sx sy a b))"
| "subtract_payload s sx sy _ _ = None"

definition subtract :: "tensor \<Rightarrow> tensor \<Rightarrow> error + tensor" where
  "subtract x y =
     (if dtype x \<noteq> dtype y then Inl DTypeMismatch
      else (case broadcast_shape (shape x) (shape y) of
              None \<Rightarrow> Inl NotBroadcastable
            | Some s \<Rightarrow>
                (case subtract_payload s (shape x) (shape y) (data x) (data y) of
                   None \<Rightarrow> Inl DTypeMismatch
                 | Some p \<Rightarrow> Inr \<lparr>shape = s, data = p\<rparr>)))"

fun square_payload :: "payload \<Rightarrow> payload" where
  "square_payload (F32 a) = F32 (map_nd (\<lambda>v. v ^ 2) a)"
| "square_payload (F64 a) = F64 (map_nd (\<lambda>v. v ^ 2) a)"
| "square_payload (I32 a) = I32 (map_nd (\<lambda>v. v ^ 2) a)"
| "square_payload (I64 a) = I64 (map_nd (\<lambda>v. v ^ 2) a)"

definition square :: "tensor \<Rightarrow> tensor" where
  "square x = x\<lparr>data := square_payload (data x)\<rparr>"

section \<open>The ranked probability score\<close>

text \<open>
  \<^verbatim>\<open>ranked_probability_score(predictions, targets, dim)\<close>, statement by statement: the
  shape check, the cast of integer targets, the two cumulative sums, the squared
  difference and the reduction. The arguments are tensors already, which
  \<^verbatim>\<open>convert_to_tensor\<close> returns as they are, and the name scope only names the nodes
  of the graph; \<open>class_dim\<close> is the argument \<^verbatim>\<open>dim\<close>. An exception of the framework
  ends the call, so each step that can raise is sequenced with \<open>bind\<close>.
\<close>

definition bind :: "error + 'a \<Rightarrow> ('a \<Rightarrow> error + 'b) \<Rightarrow> error + 'b" where
  "bind m f = (case m of Inl e \<Rightarrow> Inl e | Inr v \<Rightarrow> f v)"

definition ranked_probability_score :: "tensor \<Rightarrow> tensor \<Rightarrow> int \<Rightarrow> error + tensor" where
  "ranked_probability_score predictions targets class_dim =
     (if \<not> is_compatible_with (get_shape predictions) (get_shape targets)
      then Inl IncompatibleShapes
      else
        let targets' =
              (if is_floating (dtype predictions) \<and> is_integer (dtype targets)
               then cast targets (dtype predictions) else targets)
        in bind (cumsum predictions class_dim) (\<lambda>cdf_pred.
           bind (cumsum targets' class_dim) (\<lambda>cdf_target.
           bind (subtract cdf_pred cdf_target) (\<lambda>diff.
           let values = square diff
           in reduce_sum values class_dim))))"

section \<open>The score as the specification words it\<close>

text \<open>
  The specification gives the score of one prediction vector against one target vector:
  \<open>CDF(k)\<close> is the sum of the first \<open>k\<close> entries, and the score is the sum over
  \<open>k = 1..K\<close> of the squared difference of the two CDFs. These definitions follow the
  specification's words; the theorems compare them with \<open>ranked_probability_score\<close>.
\<close>

definition cdf :: "real list \<Rightarrow> nat \<Rightarrow> real" where
  "cdf xs k = sum_list (take k xs)"

definition rps_spec :: "real list \<Rightarrow> real list \<Rightarrow> real" where
  "rps_spec p t = (\<Sum>k = 1..length p. (cdf p k - cdf t k) ^ 2)"

text \<open>
  The vector along dimension \<open>d\<close> of an array at a batch index \<open>idx\<close> (an index into
  the shape without dimension \<open>d\<close>), and the same for a tensor, read as real numbers.
\<close>

definition lane :: "'a::zero ndarray \<Rightarrow> nat \<Rightarrow> nat \<Rightarrow> nat list \<Rightarrow> 'a list" where
  "lane a d K idx = map (\<lambda>j. elem a (insert_axis d j idx)) [0..<K]"

definition class_lane :: "tensor \<Rightarrow> nat \<Rightarrow> nat list \<Rightarrow> real list" where
  "class_lane t d idx = lane (to_reals (data t)) d (shape t ! d) idx"

definition value_at :: "tensor \<Rightarrow> nat list \<Rightarrow> real" where
  "value_at t idx = elem (to_reals (data t)) idx"

text \<open>
  The floating-point path of \<open>ranked_probability_score\<close> on the arrays themselves, once
  both operands are real arrays of one shape.
\<close>

definition rps_nd :: "nat list \<Rightarrow> nat \<Rightarrow> real ndarray \<Rightarrow> real ndarray \<Rightarrow> real ndarray" where
  "rps_nd s d a b =
     reduce_sum_nd s d (map_nd (\<lambda>v. v ^ 2) (lift2 (-) s s s (cumsum_nd d a) (cumsum_nd d b)))"

text \<open>The payload of a floating dtype (double precision unless the dtype is \<open>DT_FLOAT\<close>).\<close>

definition floats :: "dtype \<Rightarrow> real ndarray \<Rightarrow> payload" where
  "floats dt a = (if dt = DT_FLOAT then F32 a else F64 a)"

text \<open>Tensors of rank one and rank zero, for the examples and the vector claims.\<close>

definition float_vector :: "dtype \<Rightarrow> real list \<Rightarrow> tensor" where
  "float_vector dt xs = \<lparr>shape = [length xs], data = floats dt (Array (map Scalar xs))\<rparr>"

definition int32_vector :: "int list \<Rightarrow> tensor" where
  "int32_vector xs =
     \<lparr>shape = [length xs], data = I32 (Array (map (\<lambda>x. Scalar (word_of_int x)) xs))\<rparr>"

definition float_scalar :: "dtype \<Rightarrow> real \<Rightarrow> tensor" where
  "float_scalar dt v = \<lparr>shape = [], data = floats dt (Scalar v)\<rparr>"

definition int32_scalar :: "int \<Rightarrow> tensor" where
  "int32_scalar v = \<lparr>shape = [], data = I32 (Scalar (word_of_int v))\<rparr>"

text \<open>
  The inputs the claims are about: two well-formed tensors of one shape, a class
  dimension \<open>class_dim\<close> that the framework accepts for that shape (\<open>d\<close> is its
  position counted from the front), floating-point predictions, and targets of the same
  dtype or of an integer dtype.
\<close>

definition rps_inputs :: "tensor \<Rightarrow> tensor \<Rightarrow> int \<Rightarrow> nat \<Rightarrow> bool" where
  "rps_inputs p t class_dim d =
     (well_formed p \<and> well_formed t \<and> shape p = shape t \<and>
      normalize_axis (length (shape p)) class_dim = Some d \<and>
      is_floating (dtype p) \<and> (dtype t = dtype p \<or> is_integer (dtype t)))"

text \<open>
  A probability vector has non-negative entries that sum to one; a one-hot vector has a
  one at its hot index and zeros elsewhere (as reals, and as integers).
\<close>

definition is_distribution :: "real list \<Rightarrow> bool" where
  "is_distribution xs = (list_all (\<lambda>x. 0 \<le> x) xs \<and> sum_list xs = 1)"

definition one_hot :: "nat \<Rightarrow> nat \<Rightarrow> real list" where
  "one_hot K i = map (\<lambda>k. if k = i then 1 else 0) [0..<K]"

definition one_hot_int :: "nat \<Rightarrow> nat \<Rightarrow> int list" where
  "one_hot_int K i = map (\<lambda>k. if k = i then 1 else 0) [0..<K]"

text \<open>
  The expected score of a prediction \<open>p\<close> when the class is drawn from \<open>q\<close>: each
  class \<open>i\<close> contributes \<open>q ! i\<close> times the score of \<open>p\<close> against the one-hot
  vector of \<open>i\<close>. \<open>expected_rps\<close> takes the score from the specification's formula,
  \<open>expected_score\<close> from the value \<open>ranked_probability_score\<close> returns.
\<close>

definition expected_rps :: "real list \<Rightarrow> real list \<Rightarrow> real" where
  "expected_rps q p = (\<Sum>i<length q. q ! i * rps_spec p (one_hot (length q) i))"

definition score_of :: "error + tensor \<Rightarrow> real" where
  "score_of r = (case r of Inl e \<Rightarrow> 0 | Inr x \<Rightarrow> value_at x [])"

definition expected_score :: "dtype \<Rightarrow> real list \<Rightarrow> real list \<Rightarrow> real" where
  "expected_score dt q p =
     (\<Sum>i<length q. q ! i *
        score_of (ranked_probability_score (float_vector dt p)
                    (float_vector dt (one_hot (length q) i)) 0))"

text \<open>
  Reversing the order along one dimension (the framework's \<^verbatim>\<open>tf.reverse\<close> with a single
  axis), used to state the symmetry of the score under reversal of the class order.
\<close>

fun reverse_nd :: "nat \<Rightarrow> 'a ndarray \<Rightarrow> 'a ndarray" where
  "reverse_nd d (Scalar x) = Scalar x"
| "reverse_nd 0 (Array xs) = Array (rev xs)"
| "reverse_nd (Suc d) (Array xs) = Array (map (reverse_nd d) xs)"

fun reverse_payload :: "nat \<Rightarrow> payload \<Rightarrow> payload" where
  "reverse_payload d (F32 a) = F32 (reverse_nd d a)"
| "reverse_payload d (F64 a) = F64 (reverse_nd d a)"
| "reverse_payload d (I32 a) = I32 (reverse_nd d a)"
| "reverse_payload d (I64 a) = I64 (reverse_nd d a)"

definition reverse :: "tensor \<Rightarrow> int \<Rightarrow> error + tensor" where
  "reverse x axis =
     (case normalize_axis (length (shape x)) axis of
        None \<Rightarrow> Inl InvalidAxis
      | Some d \<Rightarrow> Inr (x\<lparr>data := reverse_payload d (data x)\<rparr>))"

text \<open>
  The same score in the arithmetic of any commutative ring: over the machine words it is
  what the code computes for integer predictions, over the integers it is the exact
  score of integer vectors.
\<close>

definition ring_cdf :: "'a::comm_monoid_add list \<Rightarrow> nat \<Rightarrow> 'a" where
  "ring_cdf xs k = sum_list (take k xs)"

definition ring_rps :: "'a::comm_ring_1 list \<Rightarrow> 'a list \<Rightarrow> 'a" where
  "ring_rps p t = (\<Sum>k = 1..length p. (ring_cdf p k - ring_cdf t k) ^ 2)"

definition ring_rps_nd ::
  "nat list \<Rightarrow> nat \<Rightarrow> 'a::comm_ring_1 ndarray \<Rightarrow> 'a ndarray \<Rightarrow> 'a ndarray" where
  "ring_rps_nd s d a b =
     reduce_sum_nd s d (map_nd (\<lambda>v. v ^ 2) (lift2 (-) s s s (cumsum_nd d a) (cumsum_nd d b)))"

text \<open>
  An integer tensor read as integers, the signed wrap-around of an integer dtype and its
  largest value.
\<close>

definition int_class_lane :: "tensor \<Rightarrow> nat \<Rightarrow> nat list \<Rightarrow> int list" where
  "int_class_lane t d idx = lane (to_ints (data t)) d (shape t ! d) idx"

definition int_value_at :: "tensor \<Rightarrow> nat list \<Rightarrow> int" where
  "int_value_at t idx = elem (to_ints (data t)) idx"

definition wrap :: "dtype \<Rightarrow> int \<Rightarrow> int" where
  "wrap dt n =
     (case dt of
        DT_INT32 \<Rightarrow> signed_take_bit 31 n
      | DT_INT64 \<Rightarrow> signed_take_bit 63 n
      | _ \<Rightarrow> n)"

definition int_max :: "dtype \<Rightarrow> int" where
  "int_max dt = (if dt = DT_INT32 then 2 ^ 31 - 1 else 2 ^ 63 - 1)"

text \<open>
  The other dtype pairs of two well-formed tensors of one shape with an accepted class
  dimension: integer predictions with targets of the same dtype, which the code
  subtracts without a cast, and every pair left, which the framework's subtraction
  rejects (two different dtypes that are not floating-point predictions with integer
  targets).
\<close>

definition int_inputs :: "tensor \<Rightarrow> tensor \<Rightarrow> int \<Rightarrow> nat \<Rightarrow> bool" where
  "int_inputs p t class_dim d =
     (well_formed p \<and> well_formed t \<and> shape p = shape t \<and>
      normalize_axis (length (shape p)) class_dim = Some d \<and>
      is_integer (dtype p) \<and> dtype t = dtype p)"

definition mixed_inputs :: "tensor \<Rightarrow> tensor \<Rightarrow> int \<Rightarrow> nat \<Rightarrow> bool" where
  "mixed_inputs p t class_dim d =
     (well_formed p \<and> well_formed t \<and> shape p = shape t \<and>
      normalize_axis (length (shape p)) class_dim = Some d \<and>
      dtype t \<noteq> dtype p \<and> \<not> (is_floating (dtype p) \<and> is_integer (dtype t)))"

section \<open>Example data\<close>

text \<open>A batch of two predictions over three ranked classes, with integer one-hot targets.\<close>

definition example_predictions :: tensor where
  "example_predictions =
     \<lparr>shape = [2, 3],
      data = F32 (Array [Array [Scalar 1, Scalar 0, Scalar 0],
                         Array [Scalar (1/2), Scalar (1/2), Scalar 0]])\<rparr>"

definition example_targets :: tensor where
  "example_targets =
     \<lparr>shape = [2, 3],
      data = I32 (Array [Array [Scalar 0, Scalar 0, Scalar 1],
                         Array [Scalar 0, Scalar 1, Scalar 0]])\<rparr>"

text \<open>One row of logits over two classes, with its integer one-hot label.\<close>

definition example_logits :: tensor where
  "example_logits = \<lparr>shape = [1, 2], data = F32 (Array [Array [Scalar 0, Scalar 0]])\<rparr>"

definition example_labels :: tensor where
  "example_labels = \<lparr>shape = [1, 2], data = I32 (Array [Array [Scalar 1, Scalar 0]])\<rparr>"

text \<open>A batch of two integer predictions that are not probability vectors.\<close>

definition example_int_predictions :: tensor where
  "example_int_predictions =
     \<lparr>shape = [2, 3],
      data = I32 (Array [Array [Scalar 1, Scalar 0, Scalar 0],
                         Array [Scalar 0, Scalar 3, Scalar (- 2)]])\<rparr>"

section \<open>The training loss\<close>

text \<open>
  \<^verbatim>\<open>add_loss\<close> adds one scalar tensor to the graph's collection of losses. The state is
  that collection. The framework functions it calls are modelled on the idealised
  numbers: \<^verbatim>\<open>tf.nn.softmax\<close> (along the last dimension, floating-point input of rank at
  least one), \<^verbatim>\<open>tf.reduce_mean\<close> over all elements (an integer mean is the
  quotient of the wrapped sum by the count, rounded towards zero),
  \<^verbatim>\<open>tf.losses.add_loss\<close>, and
  \<^verbatim>\<open>slim.losses.softmax_cross_entropy\<close> with its default weight of one and no label
  smoothing (shape check, cast of the labels to the dtype of the logits, cross-entropy
  of every row, mean over the rows with zero for no rows, added to the losses).
\<close>

record graph =
  losses :: "tensor list"

definition tf_losses_add_loss :: "tensor \<Rightarrow> graph \<Rightarrow> graph" where
  "tf_losses_add_loss loss g = g\<lparr>losses := losses g @ [loss]\<rparr>"

fun flatten_nd :: "'a ndarray \<Rightarrow> 'a list" where
  "flatten_nd (Scalar x) = [x]"
| "flatten_nd (Array xs) = concat (map flatten_nd xs)"

definition softmax_list :: "real list \<Rightarrow> real list" where
  "softmax_list xs = map (\<lambda>x. exp x / (\<Sum>y\<leftarrow>xs. exp y)) xs"

fun softmax_nd :: "nat list \<Rightarrow> real ndarray \<Rightarrow> real ndarray" where
  "softmax_nd [n] a = Array (map Scalar (softmax_list (flatten_nd a)))"
| "softmax_nd (n # m # ns) (Array xs) = Array (map (softmax_nd (m # ns)) xs)"
| "softmax_nd s a = a"

definition softmax :: "tensor \<Rightarrow> error + tensor" where
  "softmax logits =
     (case data logits of
        F32 a \<Rightarrow>
          if shape logits = [] then Inl InvalidInputShape
          else Inr (logits\<lparr>data := F32 (softmax_nd (shape logits) a)\<rparr>)
      | F64 a \<Rightarrow>
          if shape logits = [] then Inl InvalidInputShape
          else Inr (logits\<lparr>data := F64 (softmax_nd (shape logits) a)\<rparr>)
      | _ \<Rightarrow> Inl UnsupportedDType)"

definition mean_list :: "real list \<Rightarrow> real" where
  "mean_list vs = sum_list vs / real (length vs)"

definition int_mean :: "int \<Rightarrow> nat \<Rightarrow> int" where
  "int_mean s n = (if s < 0 then - ((- s) div int n) else s div int n)"

definition reduce_mean :: "tensor \<Rightarrow> error + tensor" where
  "reduce_mean x =
     (case data x of
        F32 a \<Rightarrow>
          if flatten_nd a = [] then Inl EmptyMean
          else Inr \<lparr>shape = [], data = F32 (Scalar (mean_list (flatten_nd a)))\<rparr>
      | F64 a \<Rightarrow>
          if flatten_nd a = [] then Inl EmptyMean
          else Inr \<lparr>shape = [], data = F64 (Scalar (mean_list (flatten_nd a)))\<rparr>
      | I32 a \<Rightarrow>
          if flatten_nd a = [] then Inl EmptyMean
          else Inr \<lparr>shape = [], data = I32 (Scalar (word_of_int
                 (int_mean (sint (sum_list (flatten_nd a))) (length (flatten_nd a)))))\<rparr>
      | I64 a \<Rightarrow>
          if flatten_nd a = [] then Inl EmptyMean
          else Inr \<lparr>shape = [], data = I64 (Scalar (word_of_int
                 (int_mean (sint (sum_list (flatten_nd a))) (length (flatten_nd a)))))\<rparr>)"

text \<open>
  The cross-entropy of one row of logits against one row of labels, and of every row of
  two arrays of one shape; the result has the shape without its last dimension.
\<close>

definition cross_entropy :: "real list \<Rightarrow> real list \<Rightarrow> real" where
  "cross_entropy logits labels =
     - (\<Sum>(l, s)\<leftarrow>zip labels (softmax_list logits). l * ln s)"

fun cross_entropy_nd :: "nat list \<Rightarrow> real ndarray \<Rightarrow> real ndarray \<Rightarrow> real ndarray" where
  "cross_entropy_nd [n] a b = Scalar (cross_entropy (flatten_nd a) (flatten_nd b))"
| "cross_entropy_nd (n # m # ns) (Array xs) (Array ys) =
     Array (map (\<lambda>i. cross_entropy_nd (m # ns) (xs ! i) (ys ! i)) [0..<n])"
| "cross_entropy_nd s a b = a"

definition softmax_cross_entropy_with_logits :: "tensor \<Rightarrow> tensor \<Rightarrow> error + tensor" where
  "softmax_cross_entropy_with_logits labels logits =
     (if shape logits = [] then Inl InvalidInputShape
      else (case (data logits, data labels) of
              (F32 a, F32 b) \<Rightarrow>
                Inr \<lparr>shape = butlast (shape logits),
                     data = F32 (cross_entropy_nd (shape logits) a b)\<rparr>
            | (F64 a, F64 b) \<Rightarrow>
                Inr \<lparr>shape = butlast (shape logits),
                     data = F64 (cross_entropy_nd (shape logits) a b)\<rparr>
            | _ \<Rightarrow> Inl UnsupportedDType))"

definition safe_mean :: "tensor \<Rightarrow> tensor" where
  "safe_mean x =
     (let vs = flatten_nd (to_reals (data x));
          mean_loss = (if vs = [] then 0 else mean_list vs)
      in \<lparr>shape = [], data = cast_payload (F32 (Scalar mean_loss)) (dtype x)\<rparr>)"

definition softmax_cross_entropy :: "tensor \<Rightarrow> tensor \<Rightarrow> graph \<Rightarrow> error + graph" where
  "softmax_cross_entropy logits onehot_labels g =
     (if \<not> is_compatible_with (get_shape logits) (get_shape onehot_labels)
      then Inl InvalidInputShape
      else
        let onehot_labels' = cast onehot_labels (dtype logits)
        in bind (softmax_cross_entropy_with_logits onehot_labels' logits) (\<lambda>losses.
           Inr (tf_losses_add_loss (safe_mean losses) g)))"

text \<open>\<^verbatim>\<open>add_loss(logits, one_hot_labels, use_rank_loss)\<close>, branch by branch.\<close>

definition add_loss :: "tensor \<Rightarrow> tensor \<Rightarrow> bool \<Rightarrow> graph \<Rightarrow> error + graph" where
  "add_loss logits one_hot_labels use_rank_loss g =
     (if \<not> use_rank_loss then softmax_cross_entropy logits one_hot_labels g
      else
        bind (softmax logits) (\<lambda>probabilities.
        bind (ranked_probability_score probabilities one_hot_labels 1) (\<lambda>rank_loss.
        bind (reduce_mean rank_loss) (\<lambda>mean_loss.
        Inr (tf_losses_add_loss mean_loss g)))))"

text \<open>
  The inputs of \<^verbatim>\<open>add_loss\<close> that its documentation describes: logits and labels of
  shape \<open>[batch size, class count]\<close> with at least one row, floating-point logits, and
  labels of the same dtype or of an integer dtype. For them, the two losses the
  specification names: the mean over the rows of the score of the softmax of the logits
  against the labels, and the mean over the rows of the cross-entropy.
\<close>

definition loss_inputs :: "tensor \<Rightarrow> tensor \<Rightarrow> nat \<Rightarrow> nat \<Rightarrow> bool" where
  "loss_inputs logits one_hot_labels b n =
     (well_formed logits \<and> well_formed one_hot_labels \<and>
      shape logits = [b, n] \<and> shape one_hot_labels = [b, n] \<and> 0 < b \<and>
      is_floating (dtype logits) \<and>
      (dtype one_hot_labels = dtype logits \<or> is_integer (dtype one_hot_labels)))"

definition mean_rank_loss :: "tensor \<Rightarrow> tensor \<Rightarrow> nat \<Rightarrow> real" where
  "mean_rank_loss logits one_hot_labels b =
     mean_list (map (\<lambda>i. rps_spec (softmax_list (class_lane logits 1 [i]))
                              (class_lane one_hot_labels 1 [i])) [0..<b])"

definition mean_cross_entropy :: "tensor \<Rightarrow> tensor \<Rightarrow> nat \<Rightarrow> real" where
  "mean_cross_entropy logits one_hot_labels b =
     mean_list (map (\<lambda>i. cross_entropy (class_lane logits 1 [i])
                              (class_lane one_hot_labels 1 [i])) [0..<b])"

section \<open>The model\<close>

text \<open>
  \<^verbatim>\<open>miq_model\<close> builds a graph of framework layers. What the layers compute depends on
  variables that training sets, so a tensor is modelled here by what the graph
  construction fixes: its shape and the layers that produce it, in order. Each layer
  function of the framework checks the shape of its input and appends itself. A
  convolution of stride one with padding \<^verbatim>\<open>SAME\<close> keeps height and width; a pooling layer
  has padding \<^verbatim>\<open>VALID\<close> by default and needs an input at least as large as its window;
  \<^verbatim>\<open>flatten\<close> keeps the batch dimension and multiplies the others; a fully connected
  layer replaces the last dimension; dropout keeps the shape.
\<close>

datatype padding = SAME | VALID

datatype activation = Relu | NoActivation

datatype layer =
    Conv2d string nat "nat \<times> nat" padding nat
  | MaxPool2d string "nat \<times> nat" nat
  | Flatten
  | FullyConnected string nat activation
  | Dropout string real bool

record net =
  net_shape :: "nat list"
  net_layers :: "layer list"

definition input_images :: "nat list \<Rightarrow> net" where
  "input_images s = \<lparr>net_shape = s, net_layers = []\<rparr>"

definition add_layer :: "net \<Rightarrow> layer \<Rightarrow> nat list \<Rightarrow> net" where
  "add_layer inputs l s = \<lparr>net_shape = s, net_layers = net_layers inputs @ [l]\<rparr>"

definition conv_output_size :: "padding \<Rightarrow> nat \<Rightarrow> nat \<Rightarrow> nat \<Rightarrow> nat option" where
  "conv_output_size pad n k rate =
     (case pad of
        SAME \<Rightarrow> Some n
      | VALID \<Rightarrow>
          (let effective = (k - 1) * rate + 1
           in if n < effective then None else Some (n - effective + 1)))"

definition conv2d ::
  "net \<Rightarrow> nat \<Rightarrow> nat \<times> nat \<Rightarrow> padding \<Rightarrow> string \<Rightarrow> nat \<Rightarrow> error + net" where
  "conv2d inputs num_outputs kernel_size pad scope rate =
     (case net_shape inputs of
        [b, h, w, c] \<Rightarrow>
          (case (conv_output_size pad h (fst kernel_size) rate,
                 conv_output_size pad w (snd kernel_size) rate) of
             (Some h', Some w') \<Rightarrow>
               Inr (add_layer inputs (Conv2d scope num_outputs kernel_size pad rate)
                      [b, h', w', num_outputs])
           | _ \<Rightarrow> Inl InvalidInputShape)
      | _ \<Rightarrow> Inl InvalidInputShape)"

definition pool_output_size :: "nat \<Rightarrow> nat \<Rightarrow> nat \<Rightarrow> nat option" where
  "pool_output_size n k stride =
     (if n < k \<or> stride = 0 then None else Some ((n - k) div stride + 1))"

definition max_pool2d :: "net \<Rightarrow> nat \<times> nat \<Rightarrow> nat \<Rightarrow> string \<Rightarrow> error + net" where
  "max_pool2d inputs kernel_size stride scope =
     (case net_shape inputs of
        [b, h, w, c] \<Rightarrow>
          (case (pool_output_size h (fst kernel_size) stride,
                 pool_output_size w (snd kernel_size) stride) of
             (Some h', Some w') \<Rightarrow>
               Inr (add_layer inputs (MaxPool2d scope kernel_size stride) [b, h', w', c])
           | _ \<Rightarrow> Inl InvalidInputShape)
      | _ \<Rightarrow> Inl InvalidInputShape)"

definition flatten :: "net \<Rightarrow> error + net" where
  "flatten inputs =
     (case net_shape inputs of
        b # d # ds \<Rightarrow> Inr (add_layer inputs Flatten [b, prod_list (d # ds)])
      | _ \<Rightarrow> Inl InvalidInputShape)"

definition fully_connected :: "net \<Rightarrow> nat \<Rightarrow> activation \<Rightarrow> string \<Rightarrow> error + net" where
  "fully_connected inputs num_outputs activation_fn scope =
     (if length (net_shape inputs) < 2 then Inl InvalidInputShape
      else Inr (add_layer inputs (FullyConnected scope num_outputs activation_fn)
                  (butlast (net_shape inputs) @ [num_outputs])))"

definition dropout :: "net \<Rightarrow> real \<Rightarrow> bool \<Rightarrow> string \<Rightarrow> error + net" where
  "dropout inputs keep_prob is_training scope =
     Inr (add_layer inputs (Dropout scope keep_prob is_training) (net_shape inputs))"

text \<open>
  \<^verbatim>\<open>model\<close>, \<^verbatim>\<open>model_v0\<close>, \<^verbatim>\<open>model_v1\<close> and \<^verbatim>\<open>miq_model\<close>, line by line (the call to
  the logger has no effect on the result).
\<close>

definition model :: "net \<Rightarrow> nat \<Rightarrow> bool \<Rightarrow> nat \<Rightarrow> error + net" where
  "model images num_classes is_training rate =
     bind (conv2d images 32 (5, 5) SAME ''conv1'' 1) (\<lambda>net.
     bind (max_pool2d net (2, 2) 2 ''pool1'') (\<lambda>net.
     bind (conv2d net 64 (5, 5) SAME ''conv2'' rate) (\<lambda>net.
     bind (max_pool2d net (2, 2) 2 ''pool2'') (\<lambda>net.
     bind (flatten net) (\<lambda>net.
     bind (fully_connected net 1024 Relu ''fc3'') (\<lambda>net.
     bind (dropout net 0.5 is_training ''dropout3'') (\<lambda>net.
     fully_connected net num_classes NoActivation ''fc4'')))))))"

definition model_v1 :: "net \<Rightarrow> nat \<Rightarrow> bool \<Rightarrow> error + net" where
  "model_v1 images num_classes is_training = model images num_classes is_training 2"

definition model_v0 :: "net \<Rightarrow> nat \<Rightarrow> bool \<Rightarrow> error + net" where
  "model_v0 images num_classes is_training = model images num_classes is_training 1"

definition miq_model :: "net \<Rightarrow> nat \<Rightarrow> bool \<Rightarrow> int \<Rightarrow> error + net" where
  "miq_model images num_classes is_training model_id =
     (if model_id = 0 then model_v0 images num_classes is_training
      else if model_id = 1 then model_v1 images num_classes is_training
      else Inl (UnsupportedModel model_id))"

text \<open>
  The layers \<^verbatim>\<open>model\<close> appends, in order, and the image batches the two pooling
  layers accept: four dimensions (batch, height, width, channels) with height and width
  of at least four.
\<close>

definition layer_stack :: "nat \<Rightarrow> bool \<Rightarrow> nat \<Rightarrow> layer list" where
  "layer_stack num_classes is_training rate =
     [Conv2d ''conv1'' 32 (5, 5) SAME 1,
      MaxPool2d ''pool1'' (2, 2) 2,
      Conv2d ''conv2'' 64 (5, 5) SAME rate,
      MaxPool2d ''pool2'' (2, 2) 2,
      Flatten,
      FullyConnected ''fc3'' 1024 Relu,
      Dropout ''dropout3'' 0.5 is_training,
      FullyConnected ''fc4'' num_classes NoActivation]"

definition image_batch :: "net \<Rightarrow> nat \<Rightarrow> bool" where
  "image_batch images b =
     (case net_shape images of
        [b', h, w, c] \<Rightarrow> b' = b \<and> 4 \<le> h \<and> 4 \<le> w
      | _ \<Rightarrow> False)"

section \<open>Lemmas on arrays\<close>

lemma map2_nds_zip: "map2_nds f xs ys = map (\<lambda>(x, y). map2_nd f x y) (zip xs ys)"
proof (induction xs arbitrary: ys)
  case Nil
  show ?case by simp
next
  case (Cons x xs)
  show ?case by (cases ys) (simp_all add: Cons.IH)
qed

lemma conforms_Nil_iff: "conforms [] a = (\<exists>x. a = Scalar x)"
  by (cases a) simp_all

lemma conforms_Cons_iff:
  "conforms (n # ns) a = (\<exists>xs. a = Array xs \<and> length xs = n \<and> (\<forall>i<n. conforms ns (xs ! i)))"
  by (cases a) (auto simp: list_all_length)

lemma valid_index_Nil [simp]: "valid_index [] idx = (idx = [])"
  by (simp add: valid_index_def)

lemma valid_index_Cons:
  "valid_index (n # ns) idx = (\<exists>i is. idx = i # is \<and> i < n \<and> valid_index ns is)"
  by (cases idx) (simp_all add: valid_index_def)

lemma valid_index_length: "valid_index s idx \<Longrightarrow> length idx = length s"
  by (simp add: valid_index_def list_all2_lengthD)

lemma conforms_map2:
  "conforms s a \<Longrightarrow> conforms s b \<Longrightarrow> conforms s (map2_nd f a b)"
proof (induction s arbitrary: a b)
  case Nil
  then show ?case by (auto simp: conforms_Nil_iff)
next
  case (Cons n ns)
  from Cons.prems obtain xs ys where
    a: "a = Array xs" "length xs = n" "\<forall>i<n. conforms ns (xs ! i)" and
    b: "b = Array ys" "length ys = n" "\<forall>i<n. conforms ns (ys ! i)"
    by (auto simp: conforms_Cons_iff)
  show ?case
    using a b Cons.IH by (simp add: map2_nds_zip list_all_length)
qed

lemma elem_map2:
  "conforms s a \<Longrightarrow> conforms s b \<Longrightarrow> valid_index s idx \<Longrightarrow>
   elem (map2_nd f a b) idx = f (elem a idx) (elem b idx)"
proof (induction s arbitrary: a b idx)
  case Nil
  then show ?case by (auto simp: conforms_Nil_iff)
next
  case (Cons n ns)
  from Cons.prems obtain xs ys where
    a: "a = Array xs" "length xs = n" "\<forall>i<n. conforms ns (xs ! i)" and
    b: "b = Array ys" "length ys = n" "\<forall>i<n. conforms ns (ys ! i)"
    by (auto simp: conforms_Cons_iff)
  from Cons.prems obtain i "is" where i: "idx = i # is" "i < n" "valid_index ns is"
    by (auto simp: valid_index_Cons)
  show ?case
    using a b i Cons.IH by (simp add: map2_nds_zip)
qed

lemma conforms_map: "conforms s a \<Longrightarrow> conforms s (map_nd f a)"
proof (induction s arbitrary: a)
  case Nil
  then show ?case by (auto simp: conforms_Nil_iff)
next
  case (Cons n ns)
  then show ?case by (auto simp: conforms_Cons_iff)
qed

lemma elem_map:
  "conforms s a \<Longrightarrow> valid_index s idx \<Longrightarrow> elem (map_nd f a) idx = f (elem a idx)"
proof (induction s arbitrary: a idx)
  case Nil
  then show ?case by (auto simp: conforms_Nil_iff)
next
  case (Cons n ns)
  then show ?case by (auto simp: conforms_Cons_iff valid_index_Cons)
qed

lemma conforms_full: "conforms s (full s v)"
  by (induction s) (simp_all add: list_all_length)

lemma elem_full: "valid_index s idx \<Longrightarrow> elem (full s v) idx = v"
  by (induction s arbitrary: idx) (auto simp: valid_index_Cons)

lemma length_running [simp]: "length (running acc xs) = length xs"
  by (induction xs arbitrary: acc) (simp_all add: Let_def)

lemma conforms_running:
  "conforms s acc \<Longrightarrow> \<forall>j<length xs. conforms s (xs ! j) \<Longrightarrow> i < length xs \<Longrightarrow>
   conforms s (running acc xs ! i)"
proof (induction xs arbitrary: acc i)
  case Nil
  then show ?case by simp
next
  case (Cons x xs)
  have x: "conforms s x" using Cons.prems(2) by force
  have xs: "\<forall>j<length xs. conforms s (xs ! j)" using Cons.prems(2) by force
  have acc': "conforms s (map2_nd (+) acc x)"
    using Cons.prems(1) x by (rule conforms_map2)
  show ?case
  proof (cases i)
    case 0
    then show ?thesis using acc' by (simp add: Let_def)
  next
    case (Suc m)
    then show ?thesis using Cons.IH [OF acc' xs, of m] Cons.prems(3) by (simp add: Let_def)
  qed
qed

lemma elem_running:
  fixes acc :: "'a::comm_monoid_add ndarray"
  shows "conforms s acc \<Longrightarrow> \<forall>j<length xs. conforms s (xs ! j) \<Longrightarrow> i < length xs \<Longrightarrow>
   valid_index s idx \<Longrightarrow>
   elem (running acc xs ! i) idx = elem acc idx + (\<Sum>j\<le>i. elem (xs ! j) idx)"
proof (induction xs arbitrary: acc i)
  case Nil
  then show ?case by simp
next
  case (Cons x xs)
  have x: "conforms s x" using Cons.prems(2) by force
  have xs: "\<forall>j<length xs. conforms s (xs ! j)" using Cons.prems(2) by force
  have acc': "conforms s (map2_nd (+) acc x)"
    using Cons.prems(1) x by (rule conforms_map2)
  have e: "elem (map2_nd (+) acc x) idx = elem acc idx + elem x idx"
    using Cons.prems(1) x Cons.prems(4) by (rule elem_map2)
  show ?case
  proof (cases i)
    case 0
    then show ?thesis using e by (simp add: Let_def)
  next
    case (Suc m)
    have "elem (running (map2_nd (+) acc x) xs ! m) idx =
          elem (map2_nd (+) acc x) idx + (\<Sum>j\<le>m. elem (xs ! j) idx)"
      using Cons.IH [OF acc' xs _ Cons.prems(4), of m] Cons.prems(3) Suc by simp
    then show ?thesis
      using Suc e by (simp add: Let_def sum.atMost_Suc_shift add.assoc del: sum.atMost_Suc)
  qed
qed

lemma conforms_cumsum: "conforms s a \<Longrightarrow> conforms s (cumsum_nd d a)"
proof (induction d arbitrary: s a)
  case 0
  show ?case
  proof (cases s)
    case Nil
    with 0 show ?thesis by (auto simp: conforms_Nil_iff)
  next
    case (Cons n ns)
    with 0 obtain xs where a: "a = Array xs" "length xs = n" "\<forall>i<n. conforms ns (xs ! i)"
      by (auto simp: conforms_Cons_iff)
    show ?thesis
    proof (cases xs)
      case Nil
      with a Cons show ?thesis by simp
    next
      case (Cons x ys)
      have x: "conforms ns x" using a Cons by force
      have ys: "\<forall>j<length ys. conforms ns (ys ! j)" using a Cons by force
      have "\<forall>j<length ys. conforms ns (running x ys ! j)"
        using conforms_running [OF x ys] by simp
      then have "\<forall>j<n. conforms ns ((x # running x ys) ! j)"
        using a Cons x by (auto simp: nth_Cons split: nat.splits)
      then show ?thesis
        using a Cons \<open>s = n # ns\<close> by (simp add: list_all_length)
    qed
  qed
next
  case (Suc d)
  show ?case
  proof (cases s)
    case Nil
    with Suc.prems show ?thesis by (auto simp: conforms_Nil_iff)
  next
    case (Cons n ns)
    with Suc.prems obtain xs where
      a: "a = Array xs" "length xs = n" "\<forall>i<n. conforms ns (xs ! i)"
      by (auto simp: conforms_Cons_iff)
    show ?thesis using a Cons Suc.IH by (simp add: list_all_length)
  qed
qed

lemma elem_cumsum:
  fixes a :: "'a::comm_monoid_add ndarray"
  shows "conforms s a \<Longrightarrow> d < length s \<Longrightarrow> valid_index s idx \<Longrightarrow>
    elem (cumsum_nd d a) idx = (\<Sum>j \<in> {..idx ! d}. elem a (idx[d := j]))"
proof (induction d arbitrary: s a idx)
  case 0
  then obtain n ns where s: "s = n # ns" by (cases s) auto
  with 0 obtain xs where a: "a = Array xs" "length xs = n" "\<forall>i<n. conforms ns (xs ! i)"
    by (auto simp: conforms_Cons_iff)
  from 0 s obtain i "is" where i: "idx = i # is" "i < n" "valid_index ns is"
    by (auto simp: valid_index_Cons)
  from a i obtain x ys where xs: "xs = x # ys" by (cases xs) auto
  have x: "conforms ns x" using a xs by force
  have ys: "\<forall>j<length ys. conforms ns (ys ! j)" using a xs by force
  have rhs: "(\<Sum>j\<le>i. elem a ((i # is)[0 := j])) = (\<Sum>j\<le>i. elem (xs ! j) is)"
    using a i by (intro sum.cong) auto
  show ?case
  proof (cases i)
    case 0
    then show ?thesis using a i xs by simp
  next
    case (Suc m)
    have "elem (running x ys ! m) is = elem x is + (\<Sum>j\<le>m. elem (ys ! j) is)"
      using elem_running [OF x ys _ i(3), of m] a i xs Suc by simp
    then show ?thesis
      unfolding i(1) nth_Cons_0 rhs using a i xs Suc
      by (simp add: sum.atMost_Suc_shift del: sum.atMost_Suc)
  qed
next
  case (Suc d)
  then obtain n ns where s: "s = n # ns" by (cases s) auto
  with Suc.prems obtain xs where
    a: "a = Array xs" "length xs = n" "\<forall>i<n. conforms ns (xs ! i)"
    by (auto simp: conforms_Cons_iff)
  from Suc.prems s obtain i "is" where i: "idx = i # is" "i < n" "valid_index ns is"
    by (auto simp: valid_index_Cons)
  have "elem (cumsum_nd d (xs ! i)) is = (\<Sum>j \<in> {..is ! d}. elem (xs ! i) (is[d := j]))"
    using Suc.IH [of ns "xs ! i" "is"] a i Suc.prems(2) s by simp
  then show ?case using a i by simp
qed

lemma foldl_add_nd:
  fixes z :: "'a::comm_monoid_add ndarray"
  shows "conforms s z \<Longrightarrow> \<forall>j<length xs. conforms s (xs ! j) \<Longrightarrow>
    conforms s (foldl (map2_nd (+)) z xs) \<and>
    (valid_index s idx \<longrightarrow>
       elem (foldl (map2_nd (+)) z xs) idx = elem z idx + (\<Sum>j<length xs. elem (xs ! j) idx))"
proof (induction xs arbitrary: z)
  case Nil
  then show ?case by simp
next
  case (Cons x xs)
  have x: "conforms s x" using Cons.prems(2) by force
  have xs: "\<forall>j<length xs. conforms s (xs ! j)" using Cons.prems(2) by force
  have z': "conforms s (map2_nd (+) z x)"
    using Cons.prems(1) x by (rule conforms_map2)
  have e: "valid_index s idx \<Longrightarrow> elem (map2_nd (+) z x) idx = elem z idx + elem x idx"
    using Cons.prems(1) x by (rule elem_map2)
  show ?case
    using Cons.IH [OF z' xs] e
    by (simp add: sum.lessThan_Suc_shift add.assoc del: sum.lessThan_Suc)
qed

lemma conforms_reduce_sum:
  fixes a :: "'a::comm_monoid_add ndarray"
  shows "conforms s a \<Longrightarrow> d < length s \<Longrightarrow> conforms (remove_axis d s) (reduce_sum_nd s d a)"
proof (induction d arbitrary: s a)
  case 0
  then obtain n ns where s: "s = n # ns" by (cases s) auto
  with 0 obtain xs where a: "a = Array xs" "length xs = n" "\<forall>i<n. conforms ns (xs ! i)"
    by (auto simp: conforms_Cons_iff)
  show ?case
    using foldl_add_nd [OF conforms_full [of ns 0], of xs] a s
    by (simp add: remove_axis_def)
next
  case (Suc d)
  then obtain n ns where s: "s = n # ns" by (cases s) auto
  with Suc.prems obtain xs where
    a: "a = Array xs" "length xs = n" "\<forall>i<n. conforms ns (xs ! i)"
    by (auto simp: conforms_Cons_iff)
  show ?case
    using Suc.IH [of ns] Suc.prems(2) a s
    by (simp add: remove_axis_def list_all_length)
qed

lemma elem_reduce_sum:
  fixes a :: "'a::comm_monoid_add ndarray"
  shows "conforms s a \<Longrightarrow> d < length s \<Longrightarrow> valid_index (remove_axis d s) idx \<Longrightarrow>
    elem (reduce_sum_nd s d a) idx = (\<Sum>j \<in> {..<s ! d}. elem a (insert_axis d j idx))"
proof (induction d arbitrary: s a idx)
  case 0
  then obtain n ns where s: "s = n # ns" by (cases s) auto
  with 0 obtain xs where a: "a = Array xs" "length xs = n" "\<forall>i<n. conforms ns (xs ! i)"
    by (auto simp: conforms_Cons_iff)
  have v: "valid_index ns idx" using 0 s by (simp add: remove_axis_def)
  have "elem (foldl (map2_nd (+)) (full ns 0) xs) idx = (\<Sum>j<n. elem (xs ! j) idx)"
    using foldl_add_nd [OF conforms_full [of ns 0], of xs idx] a v by (simp add: elem_full)
  also have "\<dots> = (\<Sum>j<n. elem a (insert_axis 0 j idx))"
    using a by (intro sum.cong) (auto simp: insert_axis_def)
  finally show ?case using a s by simp
next
  case (Suc d)
  then obtain n ns where s: "s = n # ns" by (cases s) auto
  with Suc.prems obtain xs where
    a: "a = Array xs" "length xs = n" "\<forall>i<n. conforms ns (xs ! i)"
    by (auto simp: conforms_Cons_iff)
  from Suc.prems s obtain i "is" where
    i: "idx = i # is" "i < n" "valid_index (remove_axis d ns) is"
    by (auto simp: valid_index_Cons remove_axis_def)
  have "elem (reduce_sum_nd ns d (xs ! i)) is = (\<Sum>j \<in> {..<ns ! d}. elem (xs ! i) (insert_axis d j is))"
    using Suc.IH [of ns "xs ! i" "is"] a i Suc.prems(2) s by simp
  then show ?case using a i s by (simp add: insert_axis_def)
qed

lemma broadcast_dims_same: "broadcast_dims xs xs = Some xs"
  by (induction xs) simp_all

lemma broadcast_shape_same: "broadcast_shape s s = Some s"
  by (simp add: broadcast_shape_def broadcast_dims_same)

lemma broadcast_to_same: "conforms s a \<Longrightarrow> broadcast_to s s a = a"
proof (induction s arbitrary: a)
  case Nil
  then show ?case by simp
next
  case (Cons n ns)
  then obtain xs where a: "a = Array xs" "length xs = n" "\<forall>i<n. conforms ns (xs ! i)"
    by (auto simp: conforms_Cons_iff)
  have "map (broadcast_to ns ns) xs = xs"
    using a Cons.IH by (intro map_idI) (auto simp: in_set_conv_nth)
  then show ?case using a by simp
qed

lemma lift2_same:
  "conforms s a \<Longrightarrow> conforms s b \<Longrightarrow> lift2 f s s s a b = map2_nd f a b"
  by (simp add: lift2_def broadcast_to_same)

lemma compatible_defined:
  "is_compatible_with (Some (map Some s1)) (Some (map Some s2)) = (s1 = s2)"
proof -
  have "list_all2 dimension_compatible (map Some s1) (map Some s2) = list_all2 (=) s1 s2"
    by (simp add: list_all2_map1 list_all2_map2)
  then show ?thesis by (auto simp: list_all2_eq [symmetric] dest: list_all2_lengthD)
qed

lemma compatible_get_shape:
  "is_compatible_with (get_shape x) (get_shape y) = (shape x = shape y)"
  unfolding get_shape_def by (rule compatible_defined)

lemma valid_index_insert:
  "d < length s \<Longrightarrow> valid_index (remove_axis d s) idx \<Longrightarrow> j < s ! d \<Longrightarrow>
   valid_index s (insert_axis d j idx)"
proof -
  assume d: "d < length s" and v: "valid_index (remove_axis d s) idx" and j: "j < s ! d"
  have s: "s = take d s @ (s ! d) # drop (Suc d) s"
    using d by (simp add: id_take_nth_drop [symmetric])
  have len: "length idx = length s - 1"
    using valid_index_length [OF v] d by (simp add: remove_axis_def)
  have "list_all2 (<) (take d idx @ drop d idx) (take d s @ drop (Suc d) s)"
    using v by (simp add: valid_index_def remove_axis_def)
  then have "list_all2 (<) (take d idx) (take d s) \<and> list_all2 (<) (drop d idx) (drop (Suc d) s)"
    using d len by (subst (asm) list_all2_append) auto
  then have "list_all2 (<) (take d idx @ j # drop d idx) (take d s @ (s ! d) # drop (Suc d) s)"
    using j by (auto intro: list_all2_appendI)
  then show ?thesis using s by (simp add: valid_index_def insert_axis_def)
qed

lemma insert_axis_nth: "d \<le> length idx \<Longrightarrow> insert_axis d j idx ! d = j"
  by (simp add: insert_axis_def nth_append)

lemma insert_axis_update: "d \<le> length idx \<Longrightarrow> (insert_axis d j idx)[d := i] = insert_axis d i idx"
  by (simp add: insert_axis_def list_update_append)

lemma cdf_lane:
  "k \<le> K \<Longrightarrow> cdf (lane a d K idx) k = (\<Sum>j<k. elem a (insert_axis d j idx))"
proof -
  assume k: "k \<le> K"
  have "take k (lane a d K idx) = map (\<lambda>j. elem a (insert_axis d j idx)) [0..<k]"
    using k by (simp add: lane_def take_map min_def)
  then show ?thesis
    by (simp add: cdf_def interv_sum_list_conv_sum_set_nat atLeast0LessThan)
qed

lemma elem_rps_nd:
  assumes a: "conforms s a" and b: "conforms s b" and d: "d < length s"
    and v: "valid_index (remove_axis d s) idx"
  shows "elem (rps_nd s d a b) idx = rps_spec (lane a d (s ! d) idx) (lane b d (s ! d) idx)"
proof -
  let ?ca = "cumsum_nd d a" and ?cb = "cumsum_nd d b"
  have ca: "conforms s ?ca" and cb: "conforms s ?cb"
    using a b by (simp_all add: conforms_cumsum)
  have diff: "conforms s (map2_nd (-) ?ca ?cb)"
    using ca cb by (rule conforms_map2)
  have sq: "conforms s (map_nd (\<lambda>v. v ^ 2) (map2_nd (-) ?ca ?cb))"
    using diff by (rule conforms_map)
  have len: "d \<le> length idx"
    using valid_index_length [OF v] d by (simp add: remove_axis_def)
  have step: "elem (map_nd (\<lambda>v. v ^ 2) (map2_nd (-) ?ca ?cb)) (insert_axis d j idx) =
      (cdf (lane a d (s ! d) idx) (Suc j) - cdf (lane b d (s ! d) idx) (Suc j)) ^ 2"
    if j: "j < s ! d" for j
  proof -
    have vj: "valid_index s (insert_axis d j idx)"
      using d v j by (rule valid_index_insert)
    have "elem ?ca (insert_axis d j idx) = (\<Sum>i\<le>j. elem a (insert_axis d i idx))"
      using elem_cumsum [OF a d vj] len by (simp add: insert_axis_nth insert_axis_update)
    moreover have "elem ?cb (insert_axis d j idx) = (\<Sum>i\<le>j. elem b (insert_axis d i idx))"
      using elem_cumsum [OF b d vj] len by (simp add: insert_axis_nth insert_axis_update)
    ultimately show ?thesis
      using j by (simp add: elem_map [OF diff vj] elem_map2 [OF ca cb vj] cdf_lane
          lessThan_Suc_atMost del: sum.lessThan_Suc sum.atMost_Suc)
  qed
  have "elem (rps_nd s d a b) idx =
      (\<Sum>j \<in> {..<s ! d}. elem (map_nd (\<lambda>v. v ^ 2) (map2_nd (-) ?ca ?cb)) (insert_axis d j idx))"
    using elem_reduce_sum [OF sq d v] ca cb by (simp add: rps_nd_def lift2_same)
  also have "\<dots> = (\<Sum>j \<in> {..<s ! d}.
      (cdf (lane a d (s ! d) idx) (Suc j) - cdf (lane b d (s ! d) idx) (Suc j)) ^ 2)"
    by (intro sum.cong) (simp_all add: step)
  also have "\<dots> = rps_spec (lane a d (s ! d) idx) (lane b d (s ! d) idx)"
    unfolding rps_spec_def
    by (rule sum.reindex_bij_witness [where i = "\<lambda>k. k - 1" and j = Suc])
       (auto simp: lane_def)
  finally show ?thesis .
qed

lemma conforms_rps_nd:
  assumes a: "conforms s a" and b: "conforms s b" and d: "d < length s"
  shows "conforms (remove_axis d s) (rps_nd s d a b)"
proof -
  have "conforms s (map_nd (\<lambda>v. v ^ 2) (map2_nd (-) (cumsum_nd d a) (cumsum_nd d b)))"
    using a b by (intro conforms_map conforms_map2 conforms_cumsum)
  then show ?thesis
    using a b d by (simp add: rps_nd_def lift2_same conforms_cumsum conforms_reduce_sum)
qed

lemma normalize_axis_less: "normalize_axis r axis = Some d \<Longrightarrow> d < r"
  by (auto simp: normalize_axis_def split: if_splits)

lemma conforms_to_reals: "payload_conforms s p \<Longrightarrow> conforms s (to_reals p)"
  by (cases p) (simp_all add: conforms_map)

lemma rps_floating:
  assumes wp: "well_formed p" and wt: "well_formed t"
    and sh: "shape p = shape t"
    and ax: "normalize_axis (length (shape p)) class_dim = Some d"
    and fl: "is_floating (dtype p)"
    and dt: "dtype t = dtype p \<or> is_integer (dtype t)"
  shows "ranked_probability_score p t class_dim =
     Inr \<lparr>shape = remove_axis d (shape p),
          data = floats (dtype p)
            (rps_nd (shape p) d (to_reals (data p)) (to_reals (data t)))\<rparr>"
proof -
  have cp: "conforms (shape t) (to_reals (data p))"
    using wp sh by (simp add: well_formed_def conforms_to_reals)
  have ct: "conforms (shape t) (to_reals (data t))"
    using wt by (simp add: well_formed_def conforms_to_reals)
  have l: "lift2 (-) (shape t) (shape t) (shape t)
       (cumsum_nd d (to_reals (data p))) (cumsum_nd d (to_reals (data t))) =
     map2_nd (-) (cumsum_nd d (to_reals (data p))) (cumsum_nd d (to_reals (data t)))"
    using cp ct by (simp add: lift2_same conforms_cumsum)
  show ?thesis
    using fl dt ax sh l
    by (cases "data p"; cases "data t")
       (simp_all add: ranked_probability_score_def compatible_get_shape
          dtype_def cast_def cumsum_def bind_def subtract_def broadcast_shape_same
          square_def reduce_sum_def floats_def rps_nd_def Let_def)
qed

lemma dtype_floats: "is_floating dt \<Longrightarrow> payload_dtype (floats dt a) = dt"
  by (cases dt) (simp_all add: floats_def)

lemma to_reals_floats [simp]: "to_reals (floats dt a) = a"
  by (simp add: floats_def)

lemma payload_conforms_floats [simp]: "payload_conforms s (floats dt a) = conforms s a"
  by (simp add: floats_def)

lemma rps_floating_elem:
  assumes wp: "well_formed p" and wt: "well_formed t"
    and sh: "shape p = shape t"
    and ax: "normalize_axis (length (shape p)) class_dim = Some d"
    and fl: "is_floating (dtype p)"
    and dt: "dtype t = dtype p \<or> is_integer (dtype t)"
  shows "\<exists>r. ranked_probability_score p t class_dim = Inr r \<and> well_formed r \<and>
     shape r = remove_axis d (shape p) \<and> dtype r = dtype p \<and>
     (\<forall>idx. valid_index (shape r) idx \<longrightarrow>
        value_at r idx = rps_spec (class_lane p d idx) (class_lane t d idx))"
proof -
  let ?s = "shape p"
  let ?r = "\<lparr>shape = remove_axis d ?s,
      data = floats (dtype p) (rps_nd ?s d (to_reals (data p)) (to_reals (data t)))\<rparr>"
  have d: "d < length ?s" using ax by (rule normalize_axis_less)
  have cp: "conforms ?s (to_reals (data p))"
    using wp by (simp add: well_formed_def conforms_to_reals)
  have ct: "conforms ?s (to_reals (data t))"
    using wt sh by (simp add: well_formed_def conforms_to_reals)
  have "ranked_probability_score p t class_dim = Inr ?r"
    using assms by (rule rps_floating)
  moreover have "well_formed ?r"
    using cp ct d by (simp add: well_formed_def conforms_rps_nd)
  moreover have "dtype ?r = dtype p"
    using fl by (simp add: dtype_def dtype_floats)
  moreover have "value_at ?r idx = rps_spec (class_lane p d idx) (class_lane t d idx)"
    if "valid_index (shape ?r) idx" for idx
    using elem_rps_nd [OF cp ct d, of idx] that sh
    by (simp add: value_at_def class_lane_def)
  ultimately show ?thesis by auto
qed

section \<open>Lemmas on the score of two vectors\<close>

lemma cdf_0 [simp]: "cdf xs 0 = 0"
  by (simp add: cdf_def)

lemma cdf_full: "length xs \<le> k \<Longrightarrow> cdf xs k = sum_list xs"
  by (simp add: cdf_def)

lemma cdf_Suc: "k < length xs \<Longrightarrow> cdf xs (Suc k) = cdf xs k + xs ! k"
  by (simp add: cdf_def take_Suc_conv_app_nth)

lemma cdf_split: "sum_list xs = cdf xs k + sum_list (drop k xs)"
  unfolding cdf_def by (subst append_take_drop_id [of k xs, symmetric], subst sum_list_append) simp

lemma cdf_bounds:
  assumes "list_all (\<lambda>x. 0 \<le> x) xs"
  shows "0 \<le> cdf xs k" and "cdf xs k \<le> sum_list xs"
proof -
  have nn: "\<And>x. x \<in> set xs \<Longrightarrow> 0 \<le> x" using assms by (simp add: list_all_iff)
  show "0 \<le> cdf xs k"
    unfolding cdf_def by (rule sum_list_nonneg) (auto dest: in_set_takeD intro: nn)
  have "0 \<le> sum_list (drop k xs)"
    by (rule sum_list_nonneg) (auto dest: in_set_dropD intro: nn)
  then show "cdf xs k \<le> sum_list xs"
    using cdf_split [of xs k] by simp
qed

lemma rps_spec_nonneg: "0 \<le> rps_spec p t"
  unfolding rps_spec_def by (rule sum_nonneg) simp

lemma rps_spec_zero_iff:
  "rps_spec p t = 0 \<longleftrightarrow> (\<forall>k\<in>{1..length p}. cdf p k = cdf t k)"
  unfolding rps_spec_def by (subst sum_nonneg_eq_0_iff) auto

lemma rps_spec_self: "rps_spec p p = 0"
  by (simp add: rps_spec_zero_iff)

lemma cdf_eq_imp_eq:
  assumes len: "length p = length t" and eq: "\<forall>k\<in>{1..length p}. cdf p k = cdf t k"
  shows "p = t"
proof (rule nth_equalityI [OF len])
  fix i assume i: "i < length p"
  have a: "cdf p (Suc i) = cdf t (Suc i)" using eq i by simp
  have b: "cdf p i = cdf t i"
  proof (cases i)
    case 0
    then show ?thesis by simp
  next
    case (Suc m)
    then show ?thesis using eq i by simp
  qed
  show "p ! i = t ! i"
    using a b i len by (simp add: cdf_Suc)
qed

lemma distribution_nonempty: "is_distribution xs \<Longrightarrow> 0 < length xs"
  by (cases xs) (simp_all add: is_distribution_def)

lemma rps_spec_upper:
  assumes p: "is_distribution p" and t: "is_distribution t" and len: "length p = length t"
  shows "rps_spec p t \<le> real (length p) - 1"
proof -
  let ?K = "length p"
  let ?f = "\<lambda>k. (cdf p k - cdf t k) ^ 2"
  have K: "0 < ?K" using p by (rule distribution_nonempty)
  have pn: "list_all (\<lambda>x. 0 \<le> x) p" and ps: "sum_list p = 1"
    using p by (simp_all add: is_distribution_def)
  have tn: "list_all (\<lambda>x. 0 \<le> x) t" and ts: "sum_list t = 1"
    using t by (simp_all add: is_distribution_def)
  have bound: "?f k \<le> 1" for k
  proof -
    have "0 \<le> cdf p k" "cdf p k \<le> 1" "0 \<le> cdf t k" "cdf t k \<le> 1"
      using cdf_bounds [OF pn, of k] cdf_bounds [OF tn, of k] ps ts by simp_all
    then have "\<bar>cdf p k - cdf t k\<bar> \<le> 1" by linarith
    then show ?thesis by (simp add: abs_square_le_1)
  qed
  have last: "?f ?K = 0"
    using len ps ts by (simp add: cdf_full)
  have split: "{1..?K} = insert ?K {1..<?K}" using K by (auto simp: Suc_le_eq)
  have "rps_spec p t = ?f ?K + (\<Sum>k\<in>{1..<?K}. ?f k)"
    unfolding rps_spec_def by (subst split) simp
  also have "\<dots> = (\<Sum>k\<in>{1..<?K}. ?f k)" using last by simp
  also have "\<dots> \<le> (\<Sum>k\<in>{1..<?K}. 1)"
    by (rule sum_mono) (rule bound)
  also have "\<dots> = real (?K - 1)" by simp
  also have "\<dots> = real ?K - 1" using K by (cases p) simp_all
  finally show ?thesis .
qed

lemma cdf_one_hot:
  assumes "k \<le> K"
  shows "cdf (one_hot K i) k = (if i < k then 1 else 0)"
proof -
  have "take k (one_hot K i) = map (\<lambda>j. if j = i then 1 else 0) [0..<k]"
    using assms by (simp add: one_hot_def take_map min_def)
  then have "cdf (one_hot K i) k = (\<Sum>j<k. if j = i then 1 else (0::real))"
    by (simp add: cdf_def interv_sum_list_conv_sum_set_nat atLeast0LessThan)
  then show ?thesis by simp
qed

lemma length_one_hot [simp]: "length (one_hot K i) = K"
  by (simp add: one_hot_def)

lemma rps_spec_one_hot_le:
  assumes ij: "i \<le> j"
  shows "rps_spec (one_hot K i) (one_hot K j) = real (card ({i<..j} \<inter> {1..K}))"
    and "rps_spec (one_hot K j) (one_hot K i) = real (card ({i<..j} \<inter> {1..K}))"
proof -
  have a: "(cdf (one_hot K i) k - cdf (one_hot K j) k) ^ 2 = (if k \<in> {i<..j} then 1 else 0)"
    if "k \<in> {1..K}" for k
    using that ij by (auto simp: cdf_one_hot)
  have b: "(cdf (one_hot K j) k - cdf (one_hot K i) k) ^ 2 = (if k \<in> {i<..j} then 1 else 0)"
    if "k \<in> {1..K}" for k
    using that ij by (auto simp: cdf_one_hot)
  have c: "(\<Sum>k = 1..K. if k \<in> {i<..j} then 1 else (0::real)) = real (card ({i<..j} \<inter> {1..K}))"
  proof -
    have "{1..K} \<inter> {k. k \<in> {i<..j}} = {i<..j} \<inter> {1..K}" by auto
    then show ?thesis by (simp add: sum.If_cases del: greaterThanAtMost_iff)
  qed
  show "rps_spec (one_hot K i) (one_hot K j) = real (card ({i<..j} \<inter> {1..K}))"
    unfolding rps_spec_def length_one_hot c [symmetric] by (rule sum.cong) (simp_all only: a)
  show "rps_spec (one_hot K j) (one_hot K i) = real (card ({i<..j} \<inter> {1..K}))"
    unfolding rps_spec_def length_one_hot c [symmetric] by (rule sum.cong) (simp_all only: b)
qed

lemma rps_spec_one_hot:
  assumes "i < K" "j < K"
  shows "rps_spec (one_hot K i) (one_hot K j) = real (if i \<le> j then j - i else i - j)"
proof (cases "i \<le> j")
  case True
  have "{i<..j} \<inter> {1..K} = {i<..j}" using assms by auto
  then show ?thesis using rps_spec_one_hot_le(1) [OF True, of K] True by simp
next
  case False
  then have ji: "j \<le> i" by simp
  have "{j<..i} \<inter> {1..K} = {j<..i}" using assms by auto
  then show ?thesis using rps_spec_one_hot_le(2) [OF ji, of K] False by simp
qed

lemma cdf_rev:
  assumes "k \<le> length xs"
  shows "cdf (rev xs) k = sum_list xs - cdf xs (length xs - k)"
proof -
  have "cdf (rev xs) k = sum_list (drop (length xs - k) xs)"
    by (simp add: cdf_def take_rev sum_list_rev)
  then show ?thesis using cdf_split [of xs "length xs - k"] by simp
qed

lemma rps_spec_rev:
  assumes len: "length p = length t" and tot: "sum_list p = sum_list t"
  shows "rps_spec (rev p) (rev t) = rps_spec p t"
proof -
  let ?K = "length p"
  let ?f = "\<lambda>k. (cdf p k - cdf t k) ^ 2"
  have f0: "?f 0 = 0" by simp
  have fK: "?f ?K = 0" using len tot by (simp add: cdf_full)
  have "rps_spec (rev p) (rev t) = (\<Sum>k = 1..?K. ?f (?K - k))"
    unfolding rps_spec_def length_rev
  proof (rule sum.cong [OF refl])
    fix k assume "k \<in> {1..?K}"
    then have k: "k \<le> length p" "k \<le> length t" using len by simp_all
    have "cdf (rev p) k - cdf (rev t) k = - (cdf p (?K - k) - cdf t (?K - k))"
      using k len tot by (simp add: cdf_rev)
    then show "(cdf (rev p) k - cdf (rev t) k) ^ 2 = ?f (?K - k)"
      by (simp only: power2_minus)
  qed
  also have "\<dots> = (\<Sum>j = 0..<?K. ?f j)"
    by (rule sum.reindex_bij_witness [where i = "\<lambda>j. ?K - j" and j = "\<lambda>k. ?K - k"]) auto
  also have "\<dots> = (\<Sum>j = 1..?K. ?f j)"
  proof (cases "?K = 0")
    case True
    then show ?thesis by simp
  next
    case False
    then have K: "0 < ?K" by simp
    have "(\<Sum>j = 0..<?K. ?f j) = ?f 0 + (\<Sum>j = 1..<?K. ?f j)"
      using K by (simp add: sum.atLeast_Suc_lessThan)
    moreover have "(\<Sum>j = 1..?K. ?f j) = (\<Sum>j = 1..<?K. ?f j) + ?f ?K"
    proof -
      have "{1..?K} = insert ?K {1..<?K}" using K by (auto simp: Suc_le_eq)
      then show ?thesis by simp
    qed
    ultimately show ?thesis using f0 fK by simp
  qed
  finally show ?thesis by (simp add: rps_spec_def)
qed

lemma cdf_sum_nth: "k \<le> length xs \<Longrightarrow> cdf xs k = (\<Sum>i<k. xs ! i)"
proof -
  assume k: "k \<le> length xs"
  have "sum_list (take k xs) = (\<Sum>i = 0..<length (take k xs). take k xs ! i)"
    by (rule sum_list_sum_nth)
  also have "\<dots> = (\<Sum>i<k. xs ! i)"
    using k by (simp add: min_def atLeast0LessThan)
  finally show ?thesis by (simp add: cdf_def)
qed

lemma expected_rps_decomp:
  assumes tot: "sum_list q = 1" and len: "length p = length q"
  shows "expected_rps q p = rps_spec p q + (\<Sum>k = 1..length q. cdf q k - (cdf q k) ^ 2)"
proof -
  let ?K = "length q"
  have one: "(\<Sum>i<?K. q ! i) = 1"
    using cdf_sum_nth [of ?K q] tot by (simp add: cdf_full)
  have inner: "(\<Sum>i<?K. q ! i * (cdf p k - cdf (one_hot ?K i) k) ^ 2) =
      (cdf p k - cdf q k) ^ 2 + (cdf q k - (cdf q k) ^ 2)"
    if k: "k \<in> {1..?K}" for k
  proof -
    have kK: "k \<le> ?K" using k by simp
    have part: "(\<Sum>i<?K. if i < k then q ! i else 0) = cdf q k"
    proof -
      have "{..<?K} \<inter> {i. i < k} = {..<k}" using kK by auto
      then show ?thesis using kK by (simp add: sum.If_cases cdf_sum_nth)
    qed
    have "(\<Sum>i<?K. q ! i * (cdf p k - cdf (one_hot ?K i) k) ^ 2) =
        (\<Sum>i<?K. q ! i * (cdf p k) ^ 2 + (1 - 2 * cdf p k) * (if i < k then q ! i else 0))"
      using kK by (intro sum.cong refl) (simp add: cdf_one_hot power2_eq_square algebra_simps)
    also have "\<dots> = (cdf p k) ^ 2 * (\<Sum>i<?K. q ! i) +
        (1 - 2 * cdf p k) * (\<Sum>i<?K. if i < k then q ! i else 0)"
      by (simp add: sum.distrib sum_distrib_left sum_distrib_right mult.commute)
    also have "\<dots> = (cdf p k) ^ 2 + (1 - 2 * cdf p k) * cdf q k"
      by (simp only: one part mult_1_right)
    also have "\<dots> = (cdf p k - cdf q k) ^ 2 + (cdf q k - (cdf q k) ^ 2)"
      by (simp add: power2_eq_square algebra_simps)
    finally show ?thesis .
  qed
  have "expected_rps q p =
      (\<Sum>i<?K. \<Sum>k = 1..?K. q ! i * (cdf p k - cdf (one_hot ?K i) k) ^ 2)"
    using len by (simp add: expected_rps_def rps_spec_def sum_distrib_left)
  also have "\<dots> = (\<Sum>k = 1..?K. \<Sum>i<?K. q ! i * (cdf p k - cdf (one_hot ?K i) k) ^ 2)"
    by (rule sum.swap)
  also have "\<dots> = (\<Sum>k = 1..?K. (cdf p k - cdf q k) ^ 2 + (cdf q k - (cdf q k) ^ 2))"
    by (rule sum.cong [OF refl]) (rule inner)
  also have "\<dots> = rps_spec p q + (\<Sum>k = 1..?K. cdf q k - (cdf q k) ^ 2)"
    using len by (simp add: sum.distrib rps_spec_def)
  finally show ?thesis .
qed

lemma expected_rps_proper:
  assumes tot: "sum_list q = 1" and len: "length p = length q"
  shows "expected_rps q p = expected_rps q q + rps_spec p q"
    and "expected_rps q q \<le> expected_rps q p"
    and "expected_rps q p = expected_rps q q \<longleftrightarrow> p = q"
proof -
  show e: "expected_rps q p = expected_rps q q + rps_spec p q"
    using expected_rps_decomp [OF tot len] expected_rps_decomp [OF tot refl]
    by (simp add: rps_spec_self)
  show "expected_rps q q \<le> expected_rps q p"
    using e rps_spec_nonneg [of p q] by simp
  have "rps_spec p q = 0 \<longleftrightarrow> p = q"
    using cdf_eq_imp_eq [OF len] by (auto simp: rps_spec_zero_iff)
  then show "expected_rps q p = expected_rps q q \<longleftrightarrow> p = q"
    using e by auto
qed

section \<open>Lemmas on the score of two tensors\<close>

lemma nd_ext:
  fixes x y :: "'a::zero ndarray"
  shows "conforms s x \<Longrightarrow> conforms s y \<Longrightarrow>
    (\<And>idx. valid_index s idx \<Longrightarrow> elem x idx = elem y idx) \<Longrightarrow> x = y"
proof (induction s arbitrary: x y)
  case Nil
  from Nil(1,2) obtain a b where "x = Scalar a" "y = Scalar b"
    by (auto simp: conforms_Nil_iff)
  then show ?case using Nil(3) [of "[]"] by simp
next
  case (Cons n ns)
  from Cons.prems(1,2) obtain xs ys where
    x: "x = Array xs" "length xs = n" "\<forall>i<n. conforms ns (xs ! i)" and
    y: "y = Array ys" "length ys = n" "\<forall>i<n. conforms ns (ys ! i)"
    by (auto simp: conforms_Cons_iff)
  have "xs = ys"
  proof (rule nth_equalityI)
    show "length xs = length ys" using x y by simp
  next
    fix i assume i: "i < length xs"
    show "xs ! i = ys ! i"
    proof (rule Cons.IH)
      show "conforms ns (xs ! i)" using x i by simp
      show "conforms ns (ys ! i)" using y x i by simp
    next
      fix "is" assume "valid_index ns is"
      then have "valid_index (n # ns) (i # is)" using i x by (simp add: valid_index_Cons)
      from Cons.prems(3) [OF this] show "elem (xs ! i) is = elem (ys ! i) is"
        using x y i by simp
    qed
  qed
  then show ?case using x y by simp
qed

lemma conforms_reverse: "conforms s a \<Longrightarrow> conforms s (reverse_nd d a)"
proof (induction d arbitrary: s a)
  case 0
  then show ?case
    by (cases s; cases a) (auto simp: list_all_iff)
next
  case (Suc d)
  then show ?case
    by (cases s; cases a) (auto simp: list_all_iff)
qed

lemma reverse_map_nd: "reverse_nd d (map_nd f a) = map_nd f (reverse_nd d a)"
proof (induction d arbitrary: a)
  case 0
  show ?case by (cases a) (simp_all add: rev_map)
next
  case (Suc d)
  show ?case by (cases a) (simp_all add: Suc)
qed

lemma to_reals_reverse: "to_reals (reverse_payload d p) = reverse_nd d (to_reals p)"
  by (cases p) (simp_all add: reverse_map_nd)

lemma elem_reverse:
  fixes a :: "'a::zero ndarray"
  shows "conforms s a \<Longrightarrow> d < length s \<Longrightarrow> valid_index (remove_axis d s) idx \<Longrightarrow> j < s ! d \<Longrightarrow>
    elem (reverse_nd d a) (insert_axis d j idx) = elem a (insert_axis d (s ! d - 1 - j) idx)"
proof (induction d arbitrary: s a idx)
  case 0
  then obtain n ns where s: "s = n # ns" by (cases s) auto
  with 0 obtain xs where a: "a = Array xs" "length xs = n"
    by (auto simp: conforms_Cons_iff)
  have "rev xs ! j = xs ! (n - 1 - j)"
    using 0(4) s a by (simp add: rev_nth)
  then show ?case using 0(4) s a by (simp add: insert_axis_def)
next
  case (Suc d)
  then obtain n ns where s: "s = n # ns" by (cases s) auto
  with Suc.prems obtain xs where
    a: "a = Array xs" "length xs = n" "\<forall>i<n. conforms ns (xs ! i)"
    by (auto simp: conforms_Cons_iff)
  from Suc.prems s obtain i "is" where
    i: "idx = i # is" "i < n" "valid_index (remove_axis d ns) is"
    by (auto simp: valid_index_Cons remove_axis_def)
  have "elem (reverse_nd d (xs ! i)) (insert_axis d j is) =
        elem (xs ! i) (insert_axis d (ns ! d - 1 - j) is)"
    using Suc.IH [of ns "xs ! i" "is"] a i Suc.prems s by simp
  then show ?case using a i s by (simp add: insert_axis_def)
qed

lemma lane_reverse:
  fixes a :: "'a::zero ndarray"
  assumes "conforms s a" "d < length s" "valid_index (remove_axis d s) idx"
  shows "lane (reverse_nd d a) d (s ! d) idx = rev (lane a d (s ! d) idx)"
proof (rule nth_equalityI)
  show "length (lane (reverse_nd d a) d (s ! d) idx) = length (rev (lane a d (s ! d) idx))"
    by (simp add: lane_def)
next
  fix j assume "j < length (lane (reverse_nd d a) d (s ! d) idx)"
  then have j: "j < s ! d" by (simp add: lane_def)
  then have "s ! d - Suc j < s ! d" by simp
  then show "lane (reverse_nd d a) d (s ! d) idx ! j = rev (lane a d (s ! d) idx) ! j"
    using j elem_reverse [OF assms j] by (simp add: lane_def rev_nth)
qed

lemma length_lane [simp]: "length (lane a d K idx) = K"
  by (simp add: lane_def)

lemma rps_nd_reverse:
  assumes a: "conforms s a" and b: "conforms s b" and d: "d < length s"
    and tot: "\<And>idx. valid_index (remove_axis d s) idx \<Longrightarrow>
       sum_list (lane a d (s ! d) idx) = sum_list (lane b d (s ! d) idx)"
  shows "rps_nd s d (reverse_nd d a) (reverse_nd d b) = rps_nd s d a b"
proof (rule nd_ext)
  show "conforms (remove_axis d s) (rps_nd s d (reverse_nd d a) (reverse_nd d b))"
    using a b d by (intro conforms_rps_nd conforms_reverse)
  show "conforms (remove_axis d s) (rps_nd s d a b)"
    using a b d by (rule conforms_rps_nd)
next
  fix idx assume v: "valid_index (remove_axis d s) idx"
  have "elem (rps_nd s d (reverse_nd d a) (reverse_nd d b)) idx =
      rps_spec (rev (lane a d (s ! d) idx)) (rev (lane b d (s ! d) idx))"
    using elem_rps_nd [OF conforms_reverse [OF a] conforms_reverse [OF b] d v]
    by (simp add: lane_reverse [OF a d v] lane_reverse [OF b d v])
  also have "\<dots> = rps_spec (lane a d (s ! d) idx) (lane b d (s ! d) idx)"
    by (rule rps_spec_rev) (simp_all add: tot [OF v])
  also have "\<dots> = elem (rps_nd s d a b) idx"
    using elem_rps_nd [OF a b d v] by simp
  finally show "elem (rps_nd s d (reverse_nd d a) (reverse_nd d b)) idx = elem (rps_nd s d a b) idx" .
qed

lemma reverse_Inr:
  "normalize_axis (length (shape x)) axis = Some d \<Longrightarrow>
   reverse x axis = Inr (x\<lparr>data := reverse_payload d (data x)\<rparr>)"
  by (simp add: reverse_def)

lemma payload_conforms_reverse:
  "payload_conforms s p \<Longrightarrow> payload_conforms s (reverse_payload d p)"
  by (cases p) (simp_all add: conforms_reverse)

lemma payload_dtype_reverse [simp]: "payload_dtype (reverse_payload d p) = payload_dtype p"
  by (cases p) simp_all

lemma rps_reverse:
  assumes wp: "well_formed p" and wt: "well_formed t"
    and sh: "shape p = shape t"
    and ax: "normalize_axis (length (shape p)) class_dim = Some d"
    and fl: "is_floating (dtype p)"
    and dt: "dtype t = dtype p \<or> is_integer (dtype t)"
    and tot: "\<And>idx. valid_index (remove_axis d (shape p)) idx \<Longrightarrow>
       sum_list (class_lane p d idx) = sum_list (class_lane t d idx)"
  shows "bind (reverse p class_dim) (\<lambda>p'. bind (reverse t class_dim) (\<lambda>t'.
           ranked_probability_score p' t' class_dim)) =
         ranked_probability_score p t class_dim"
proof -
  let ?p' = "p\<lparr>data := reverse_payload d (data p)\<rparr>"
  let ?t' = "t\<lparr>data := reverse_payload d (data t)\<rparr>"
  have d: "d < length (shape p)" using ax by (rule normalize_axis_less)
  have cp: "conforms (shape p) (to_reals (data p))"
    using wp by (simp add: well_formed_def conforms_to_reals)
  have ct: "conforms (shape p) (to_reals (data t))"
    using wt sh by (simp add: well_formed_def conforms_to_reals)
  have rp: "reverse p class_dim = Inr ?p'" using ax by (rule reverse_Inr)
  have rt: "reverse t class_dim = Inr ?t'" using ax sh by (intro reverse_Inr) simp
  have "ranked_probability_score ?p' ?t' class_dim =
      Inr \<lparr>shape = remove_axis d (shape ?p'),
           data = floats (dtype ?p') (rps_nd (shape ?p') d (to_reals (data ?p')) (to_reals (data ?t')))\<rparr>"
    using wp wt sh ax fl dt
    by (intro rps_floating) (simp_all add: well_formed_def payload_conforms_reverse dtype_def)
  also have "\<dots> = Inr \<lparr>shape = remove_axis d (shape p),
           data = floats (dtype p) (rps_nd (shape p) d (to_reals (data p)) (to_reals (data t)))\<rparr>"
    using rps_nd_reverse [OF cp ct d] tot sh
    by (simp add: to_reals_reverse dtype_def class_lane_def)
  also have "\<dots> = ranked_probability_score p t class_dim"
    using assms(1-6) by (rule rps_floating [symmetric])
  finally show ?thesis by (simp add: rp rt bind_def)
qed

lemma lane_vector: "lane (Array (map Scalar xs)) 0 (length xs) [] = xs"
  by (rule nth_equalityI) (simp_all add: lane_def insert_axis_def)

lemma class_lane_float_vector [simp]: "class_lane (float_vector dt xs) 0 [] = xs"
  by (simp add: class_lane_def float_vector_def lane_vector)

lemma class_lane_int32_one_hot [simp]:
  "class_lane (int32_vector (one_hot_int K j)) 0 [] = one_hot K j"
proof -
  have "to_reals (data (int32_vector (one_hot_int K j))) = Array (map Scalar (one_hot K j))"
    by (simp add: int32_vector_def one_hot_int_def one_hot_def)
  then show ?thesis
    using lane_vector [of "one_hot K j"]
    by (simp add: class_lane_def int32_vector_def one_hot_int_def)
qed

lemma well_formed_float_vector [simp]: "well_formed (float_vector dt xs)"
  by (simp add: well_formed_def float_vector_def list_all_iff)

lemma well_formed_int32_vector [simp]: "well_formed (int32_vector xs)"
  by (simp add: well_formed_def int32_vector_def list_all_iff)

lemma shape_float_vector [simp]: "shape (float_vector dt xs) = [length xs]"
  by (simp add: float_vector_def)

lemma shape_int32_vector [simp]: "shape (int32_vector xs) = [length xs]"
  by (simp add: int32_vector_def)

lemma dtype_float_vector [simp]: "is_floating dt \<Longrightarrow> dtype (float_vector dt xs) = dt"
  by (simp add: dtype_def float_vector_def dtype_floats)

lemma dtype_int32_vector [simp]: "dtype (int32_vector xs) = DT_INT32"
  by (simp add: dtype_def int32_vector_def)

lemma scalar_tensor:
  assumes "well_formed r" "shape r = []" "dtype r = dt" "is_floating dt"
  shows "r = float_scalar dt (value_at r [])"
proof -
  obtain s p where r: "r = \<lparr>shape = s, data = p\<rparr>" by (cases r) auto
  show ?thesis
    using assms unfolding r
    by (cases p; cases dt)
       (auto simp: well_formed_def dtype_def float_scalar_def floats_def value_at_def
          conforms_Nil_iff)
qed

lemma rps_rank1:
  assumes wp: "well_formed p" and wt: "well_formed t"
    and sp: "shape p = [K]" and st: "shape t = [K]"
    and fl: "is_floating (dtype p)"
    and dt: "dtype t = dtype p \<or> is_integer (dtype t)"
  shows "ranked_probability_score p t 0 =
     Inr (float_scalar (dtype p) (rps_spec (class_lane p 0 []) (class_lane t 0 [])))"
proof -
  have ax: "normalize_axis (length (shape p)) 0 = Some 0"
    using sp by (simp add: normalize_axis_def)
  from rps_floating_elem [OF wp wt _ ax fl dt] sp st obtain r where
    r: "ranked_probability_score p t 0 = Inr r" "well_formed r" "shape r = []"
       "dtype r = dtype p"
       "value_at r [] = rps_spec (class_lane p 0 []) (class_lane t 0 [])"
    by (auto simp: remove_axis_def)
  from scalar_tensor [OF r(2,3,4) fl] r(1,5) show ?thesis by simp
qed

lemma length_one_hot_int [simp]: "length (one_hot_int K i) = K"
  by (simp add: one_hot_int_def)

lemma rps_float_vectors:
  assumes "is_floating dt" "length p = length t"
  shows "ranked_probability_score (float_vector dt p) (float_vector dt t) 0 =
     Inr (float_scalar dt (rps_spec p t))"
  using rps_rank1 [of "float_vector dt p" "float_vector dt t" "length p"] assms by simp

lemma rps_int32_one_hot:
  assumes "is_floating dt" "length p = K"
  shows "ranked_probability_score (float_vector dt p) (int32_vector (one_hot_int K j)) 0 =
     Inr (float_scalar dt (rps_spec p (one_hot K j)))"
  using rps_rank1 [of "float_vector dt p" "int32_vector (one_hot_int K j)" K] assms by simp

lemma value_at_float_scalar [simp]: "value_at (float_scalar dt v) [] = v"
  by (simp add: value_at_def float_scalar_def)

lemma expected_score_eq:
  assumes "is_floating dt" "length p = length q"
  shows "expected_score dt q p = expected_rps q p"
  unfolding expected_score_def expected_rps_def
  by (rule sum.cong [OF refl]) (simp add: rps_float_vectors assms score_of_def)

lemma rps_inputsD:
  assumes "rps_inputs p t class_dim d"
  shows "well_formed p" "well_formed t" "shape p = shape t"
    "normalize_axis (length (shape p)) class_dim = Some d" "is_floating (dtype p)"
    "dtype t = dtype p \<or> is_integer (dtype t)"
  using assms unfolding rps_inputs_def by blast+

lemma length_class_lane [simp]: "length (class_lane t d idx) = shape t ! d"
  by (simp add: class_lane_def)

lemma example_inputs: "rps_inputs example_predictions example_targets (- 1) 1"
  by (simp add: rps_inputs_def example_predictions_def example_targets_def well_formed_def normalize_axis_def dtype_def)

lemma example_batch_index:
  "valid_index (remove_axis 1 (shape example_predictions)) idx \<longleftrightarrow> idx = [0] \<or> idx = [1]"
  by (auto simp: example_predictions_def remove_axis_def valid_index_Cons)

lemma example_lanes:
  "class_lane example_predictions 1 [0] = [1, 0, 0]" "class_lane example_predictions 1 [1] = [1/2, 1/2, 0]"
  "class_lane example_targets 1 [0] = [0, 0, 1]" "class_lane example_targets 1 [1] = [0, 1, 0]"
  by (simp_all add: class_lane_def lane_def example_predictions_def example_targets_def insert_axis_def upt_conv_Cons)

text \<open>
  Without equal totals a reversal can change the score: \<open>[1,0]\<close> against \<open>[0,0]\<close>
  scores 2, the reversed \<open>[0,1]\<close> against \<open>[0,0]\<close> scores 1.
\<close>

lemma reversal_unequal_totals:
  "ranked_probability_score (float_vector DT_FLOAT [1, 0]) (float_vector DT_FLOAT [0, 0]) 0 =
     Inr (float_scalar DT_FLOAT 2)"
  "ranked_probability_score (float_vector DT_FLOAT [0, 1]) (float_vector DT_FLOAT [0, 0]) 0 =
     Inr (float_scalar DT_FLOAT 1)"
  "reverse (float_vector DT_FLOAT [1, 0]) 0 = Inr (float_vector DT_FLOAT [0, 1])"
proof -
  have "rps_spec [1, 0] [0, 0] = 2" "rps_spec [0, 1] [0, 0] = 1"
    by (simp_all add: rps_spec_def cdf_def numeral_2_eq_2)
  then show
    "ranked_probability_score (float_vector DT_FLOAT [1, 0]) (float_vector DT_FLOAT [0, 0]) 0 =
       Inr (float_scalar DT_FLOAT 2)"
    "ranked_probability_score (float_vector DT_FLOAT [0, 1]) (float_vector DT_FLOAT [0, 0]) 0 =
       Inr (float_scalar DT_FLOAT 1)"
    by (simp_all add: rps_float_vectors)
  show "reverse (float_vector DT_FLOAT [1, 0]) 0 = Inr (float_vector DT_FLOAT [0, 1])"
    by (simp add: reverse_def normalize_axis_def float_vector_def floats_def)
qed

section \<open>Lemmas on the training loss\<close>

lemma loss_inputsD:
  assumes "loss_inputs logits labels b n"
  shows "well_formed logits" "well_formed labels" "shape logits = [b, n]"
    "shape labels = [b, n]" "0 < b" "is_floating (dtype logits)"
    "dtype labels = dtype logits \<or> is_integer (dtype labels)"
  using assms unfolding loss_inputs_def by blast+

lemma floating_data:
  "is_floating (dtype x) \<Longrightarrow> data x = floats (dtype x) (to_reals (data x))"
  by (cases "data x") (simp_all add: dtype_def floats_def)

lemma flatten_rank1:
  fixes a :: "'a::zero ndarray"
  assumes "conforms [n] a"
  shows "flatten_nd a = map (\<lambda>j. elem a [j]) [0..<n]"
proof -
  from assms obtain ys where a: "a = Array ys" "length ys = n"
    and ys: "\<forall>i<n. \<exists>v. ys ! i = Scalar v"
    by (auto simp: conforms_Cons_iff conforms_Nil_iff)
  have m: "map flatten_nd ys = map (\<lambda>y. [elem y []]) ys"
  proof (rule map_cong [OF refl])
    fix y assume "y \<in> set ys"
    then obtain i where "i < n" "y = ys ! i" using a by (auto simp: in_set_conv_nth)
    with ys obtain v where "y = Scalar v" by auto
    then show "flatten_nd y = [elem y []]" by simp
  qed
  have "flatten_nd a = concat (map flatten_nd ys)" using a by simp
  also have "\<dots> = concat (map (\<lambda>y. [elem y []]) ys)" by (simp only: m)
  also have "\<dots> = map (\<lambda>y. elem y []) ys" by simp
  also have "\<dots> = map (\<lambda>j. elem a [j]) [0..<n]"
    using a by (intro nth_equalityI) simp_all
  finally show ?thesis .
qed

lemma flatten_row:
  fixes xs :: "'a::zero ndarray list"
  assumes "conforms [b, n] (Array xs)" "i < b"
  shows "flatten_nd (xs ! i) = lane (Array xs) 1 n [i]"
proof -
  have c: "conforms [n] (xs ! i)" and len: "length xs = b"
    using assms by (auto simp: list_all_length)
  show ?thesis
    using assms(2) len by (simp add: flatten_rank1 [OF c] lane_def insert_axis_def)
qed

lemma conforms_rank2:
  "conforms [b, n] a \<longleftrightarrow> (\<exists>xs. a = Array xs \<and> length xs = b \<and> (\<forall>i<b. conforms [n] (xs ! i)))"
  by (rule conforms_Cons_iff)

lemma conforms_softmax_row: "conforms [n] a \<Longrightarrow> conforms [n] (softmax_nd [n] a)"
proof -
  assume c: "conforms [n] a"
  have "length (flatten_nd a) = n" using flatten_rank1 [OF c] by simp
  then show ?thesis by (simp add: softmax_list_def list_all_iff)
qed

lemma flatten_softmax_row:
  "conforms [n] a \<Longrightarrow> flatten_nd (softmax_nd [n] a) = softmax_list (flatten_nd a)"
  by (simp add: concat_map_singleton comp_def)

lemma softmax_rank2:
  assumes c: "conforms [b, n] a"
  shows "conforms [b, n] (softmax_nd [b, n] a)"
    and "i < b \<Longrightarrow> lane (softmax_nd [b, n] a) 1 n [i] = softmax_list (lane a 1 n [i])"
proof -
  from c obtain xs where a: "a = Array xs" "length xs = b" "\<forall>i<b. conforms [n] (xs ! i)"
    by (auto simp: conforms_rank2)
  have sm: "softmax_nd [b, n] a = Array (map (softmax_nd [n]) xs)"
    using a by simp
  show c': "conforms [b, n] (softmax_nd [b, n] a)"
    unfolding sm using a
    by (simp add: list_all_length conforms_softmax_row del: softmax_nd.simps)
  assume i: "i < b"
  have "lane (softmax_nd [b, n] a) 1 n [i] = flatten_nd (softmax_nd [n] (xs ! i))"
    using flatten_row [of b n "map (softmax_nd [n]) xs" i] c' a i
    unfolding sm by (simp del: softmax_nd.simps)
  also have "\<dots> = softmax_list (flatten_nd (xs ! i))"
    using a i by (simp add: flatten_softmax_row del: softmax_nd.simps)
  also have "\<dots> = softmax_list (lane a 1 n [i])"
    using flatten_row [of b n xs i] c a i by simp
  finally show "lane (softmax_nd [b, n] a) 1 n [i] = softmax_list (lane a 1 n [i])" .
qed

lemma softmax_floating:
  assumes "is_floating (dtype x)" "shape x \<noteq> []"
  shows "softmax x = Inr (x\<lparr>data := floats (dtype x) (softmax_nd (shape x) (to_reals (data x)))\<rparr>)"
  using assms by (cases "data x") (simp_all add: softmax_def dtype_def floats_def)

lemma reduce_mean_floating:
  assumes "is_floating (dtype x)" "flatten_nd (to_reals (data x)) \<noteq> []"
  shows "reduce_mean x = Inr (float_scalar (dtype x) (mean_list (flatten_nd (to_reals (data x)))))"
  using assms
  by (cases "data x") (simp_all add: reduce_mean_def dtype_def floats_def float_scalar_def)

lemma flatten_values:
  assumes "well_formed r" "shape r = [b]"
  shows "flatten_nd (to_reals (data r)) = map (\<lambda>i. value_at r [i]) [0..<b]"
proof -
  have "conforms [b] (to_reals (data r))"
    using assms by (simp add: well_formed_def conforms_to_reals)
  then show ?thesis by (simp add: flatten_rank1 value_at_def)
qed

lemma add_loss_rank:
  assumes inp: "loss_inputs logits labels b n"
  shows "add_loss logits labels True g =
     Inr (tf_losses_add_loss (float_scalar (dtype logits) (mean_rank_loss logits labels b)) g)"
proof -
  note h = loss_inputsD [OF inp]
  let ?dt = "dtype logits"
  let ?probs = "logits\<lparr>data := floats ?dt (softmax_nd [b, n] (to_reals (data logits)))\<rparr>"
  have cl: "conforms [b, n] (to_reals (data logits))"
    using h(1,3) by (simp add: well_formed_def conforms_to_reals)
  have sm: "softmax logits = Inr ?probs"
    using softmax_floating [of logits] h(3,6) by simp
  have dp: "dtype ?probs = ?dt" using h(6) by (simp add: dtype_def dtype_floats)
  have pi: "rps_inputs ?probs labels 1 1"
    using h dp softmax_rank2(1) [OF cl]
    by (simp add: rps_inputs_def well_formed_def normalize_axis_def)
  from rps_floating_elem [OF rps_inputsD [OF pi]] obtain r where
    r: "ranked_probability_score ?probs labels 1 = Inr r" "well_formed r"
      "shape r = remove_axis 1 (shape ?probs)" "dtype r = dtype ?probs"
      "\<And>idx. valid_index (shape r) idx \<Longrightarrow>
         value_at r idx = rps_spec (class_lane ?probs 1 idx) (class_lane labels 1 idx)"
    by blast
  have sr: "shape r = [b]" using r(3) h(3) by (simp add: remove_axis_def)
  have val: "value_at r [i] =
      rps_spec (softmax_list (class_lane logits 1 [i])) (class_lane labels 1 [i])"
    if i: "i < b" for i
  proof -
    have "valid_index (shape r) [i]" using sr i by (simp add: valid_index_def)
    from r(5) [OF this] show ?thesis
      using softmax_rank2(2) [OF cl i] h(3) by (simp add: class_lane_def)
  qed
  have fl: "flatten_nd (to_reals (data r)) =
      map (\<lambda>i. rps_spec (softmax_list (class_lane logits 1 [i])) (class_lane labels 1 [i])) [0..<b]"
    unfolding flatten_values [OF r(2) sr] by (rule map_cong [OF refl]) (simp add: val)
  have ne: "flatten_nd (to_reals (data r)) \<noteq> []" using fl h(5) by simp
  have "reduce_mean r = Inr (float_scalar ?dt (mean_rank_loss logits labels b))"
    using reduce_mean_floating [of r] h(6) r(4) dp ne fl by (simp add: mean_rank_loss_def)
  then show ?thesis
    using sm r(1) by (simp add: add_loss_def bind_def)
qed

lemma cross_entropy_rank2:
  assumes a: "conforms [b, n] a" and c: "conforms [b, n] c"
  shows "flatten_nd (cross_entropy_nd [b, n] a c) =
     map (\<lambda>i. cross_entropy (lane a 1 n [i]) (lane c 1 n [i])) [0..<b]"
proof -
  from a obtain xs where xs: "a = Array xs" "length xs = b" by (auto simp: conforms_rank2)
  from c obtain ys where ys: "c = Array ys" "length ys = b" by (auto simp: conforms_rank2)
  have "flatten_nd (cross_entropy_nd [b, n] a c) =
      map (\<lambda>i. cross_entropy (flatten_nd (xs ! i)) (flatten_nd (ys ! i))) [0..<b]"
    using xs ys by (simp add: concat_map_singleton comp_def)
  also have "\<dots> = map (\<lambda>i. cross_entropy (lane a 1 n [i]) (lane c 1 n [i])) [0..<b]"
    using flatten_row [of b n xs] flatten_row [of b n ys] a c xs ys
    by (intro map_cong refl) simp
  finally show ?thesis .
qed

lemma cast_floating:
  "is_floating dt \<Longrightarrow> cast_payload p dt = floats dt (to_reals p)"
  by (cases dt) (simp_all add: floats_def)

lemma add_loss_cross_entropy:
  assumes inp: "loss_inputs logits labels b n"
  shows "add_loss logits labels False g =
     Inr (tf_losses_add_loss (float_scalar (dtype logits) (mean_cross_entropy logits labels b)) g)"
proof -
  note h = loss_inputsD [OF inp]
  let ?dt = "dtype logits"
  let ?a = "to_reals (data logits)" and ?c = "to_reals (data labels)"
  let ?losses = "\<lparr>shape = [b], data = floats ?dt (cross_entropy_nd [b, n] ?a ?c)\<rparr>"
  have cl: "conforms [b, n] ?a"
    using h(1,3) by (simp add: well_formed_def conforms_to_reals)
  have cb: "conforms [b, n] ?c"
    using h(2,4) by (simp add: well_formed_def conforms_to_reals)
  have xe: "softmax_cross_entropy_with_logits (cast labels ?dt) logits = Inr ?losses"
    using h(3,6)
    by (cases "data logits")
       (simp_all add: softmax_cross_entropy_with_logits_def cast_def dtype_def floats_def)
  have fl: "flatten_nd (to_reals (data ?losses)) =
      map (\<lambda>i. cross_entropy (class_lane logits 1 [i]) (class_lane labels 1 [i])) [0..<b]"
    using cross_entropy_rank2 [OF cl cb] h(3,4) by (simp add: class_lane_def)
  have dl: "dtype ?losses = ?dt" using h(6) by (simp add: dtype_def dtype_floats)
  have "safe_mean ?losses = float_scalar ?dt (mean_cross_entropy logits labels b)"
    unfolding safe_mean_def fl dl Let_def using h(5,6)
    by (simp add: cast_floating float_scalar_def mean_cross_entropy_def)
  then show ?thesis
    using xe h(3,4)
    by (simp add: add_loss_def softmax_cross_entropy_def compatible_get_shape bind_def)
qed

lemma example_loss_inputs: "loss_inputs example_logits example_labels 1 2"
  by (simp add: loss_inputs_def example_logits_def example_labels_def well_formed_def dtype_def)

lemma example_loss_lanes:
  "class_lane example_logits 1 [0] = [0, 0]" "class_lane example_labels 1 [0] = [1, 0]"
  by (simp_all add: class_lane_def lane_def example_logits_def example_labels_def
      insert_axis_def upt_conv_Cons)

lemma example_softmax: "softmax_list [0, 0] = [1/2, 1/2]"
  by (simp add: softmax_list_def)

lemma example_mean_rank_loss: "mean_rank_loss example_logits example_labels 1 = 1/4"
proof -
  have "rps_spec [1/2, 1/2] [1, 0] = 1/4"
    by (simp add: rps_spec_def cdf_def power2_eq_square numeral_2_eq_2)
  then show ?thesis
    by (simp add: mean_rank_loss_def mean_list_def example_loss_lanes example_softmax
        upt_conv_Cons del: One_nat_def)
qed

lemma example_mean_cross_entropy: "mean_cross_entropy example_logits example_labels 1 = ln 2"
  by (simp add: mean_cross_entropy_def mean_list_def example_loss_lanes cross_entropy_def
      example_softmax ln_div upt_conv_Cons del: One_nat_def)

section \<open>Lemmas on the model\<close>

lemma image_batch_iff:
  "image_batch images b \<longleftrightarrow> (\<exists>h w c. net_shape images = [b, h, w, c] \<and> 4 \<le> h \<and> 4 \<le> w)"
  by (auto simp: image_batch_def split: list.splits)

lemma pool_twice:
  assumes "4 \<le> h"
  shows "\<exists>h1 h2. pool_output_size h 2 2 = Some h1 \<and> pool_output_size h1 2 2 = Some h2"
proof -
  have "2 \<le> (h - 2) div 2 + 1" using assms by presburger
  then show ?thesis using assms by (simp add: pool_output_size_def)
qed

lemma pool_small:
  assumes "h < 4"
  shows "pool_output_size h 2 2 = None \<or>
    (\<exists>h1. pool_output_size h 2 2 = Some h1 \<and> pool_output_size h1 2 2 = None)"
proof -
  have "h < 2 \<or> (h - 2) div 2 + 1 < 2" using assms by presburger
  then show ?thesis by (auto simp: pool_output_size_def)
qed

lemma model_image_batch:
  assumes "image_batch images b"
  shows "\<exists>logits. model images num_classes is_training rate = Inr logits \<and>
    net_shape logits = [b, num_classes] \<and>
    net_layers logits = net_layers images @ layer_stack num_classes is_training rate"
proof -
  from assms obtain h w c where s: "net_shape images = [b, h, w, c]" and h: "4 \<le> h" and w: "4 \<le> w"
    by (auto simp: image_batch_iff)
  from pool_twice [OF h] obtain h1 h2 where
    ph: "pool_output_size h 2 2 = Some h1" "pool_output_size h1 2 2 = Some h2" by blast
  from pool_twice [OF w] obtain w1 w2 where
    pw: "pool_output_size w 2 2 = Some w1" "pool_output_size w1 2 2 = Some w2" by blast
  show ?thesis
    by (simp add: model_def bind_def conv2d_def max_pool2d_def flatten_def fully_connected_def
        dropout_def add_layer_def conv_output_size_def layer_stack_def s ph pw)
qed

lemma model_not_image_batch:
  assumes "\<not> (\<exists>b. image_batch images b)"
  shows "model images num_classes is_training rate = Inl InvalidInputShape"
proof (cases "\<exists>b h w c. net_shape images = [b, h, w, c]")
  case False
  then show ?thesis
    by (auto simp: model_def bind_def conv2d_def split: list.splits)
next
  case True
  then obtain b h w c where s: "net_shape images = [b, h, w, c]" by blast
  with assms have "h < 4 \<or> w < 4" by (auto simp: image_batch_iff)
  then show ?thesis
  proof
    assume "h < 4"
    from pool_small [OF this] show ?thesis
      by (auto simp: model_def bind_def conv2d_def max_pool2d_def add_layer_def
          conv_output_size_def s split: option.splits)
  next
    assume "w < 4"
    from pool_small [OF this] show ?thesis
      by (auto simp: model_def bind_def conv2d_def max_pool2d_def add_layer_def
          conv_output_size_def s split: option.splits)
  qed
qed

section \<open>Lemmas on integer and mixed dtypes\<close>

lemma ring_cdf_lane:
  fixes a :: "'a::{zero,comm_monoid_add} ndarray"
  shows "k \<le> K \<Longrightarrow> ring_cdf (lane a d K idx) k = (\<Sum>j<k. elem a (insert_axis d j idx))"
proof -
  assume k: "k \<le> K"
  have "take k (lane a d K idx) = map (\<lambda>j. elem a (insert_axis d j idx)) [0..<k]"
    using k by (simp add: lane_def take_map min_def)
  then show ?thesis
    by (simp add: ring_cdf_def interv_sum_list_conv_sum_set_nat atLeast0LessThan)
qed

lemma elem_ring_rps_nd:
  fixes a b :: "'a::comm_ring_1 ndarray"
  assumes a: "conforms s a" and b: "conforms s b" and d: "d < length s"
    and v: "valid_index (remove_axis d s) idx"
  shows "elem (ring_rps_nd s d a b) idx =
    ring_rps (lane a d (s ! d) idx) (lane b d (s ! d) idx)"
proof -
  let ?ca = "cumsum_nd d a" and ?cb = "cumsum_nd d b"
  let ?sq = "map_nd (\<lambda>v. v ^ 2) (map2_nd (-) ?ca ?cb)"
  have ca: "conforms s ?ca" and cb: "conforms s ?cb"
    using a b by (simp_all add: conforms_cumsum)
  have diff: "conforms s (map2_nd (-) ?ca ?cb)"
    using ca cb by (rule conforms_map2)
  have sq: "conforms s ?sq"
    using diff by (rule conforms_map)
  have len: "d \<le> length idx"
    using valid_index_length [OF v] d by (simp add: remove_axis_def)
  have step: "elem ?sq (insert_axis d j idx) =
      (ring_cdf (lane a d (s ! d) idx) (Suc j) - ring_cdf (lane b d (s ! d) idx) (Suc j)) ^ 2"
    if j: "j < s ! d" for j
  proof -
    have vj: "valid_index s (insert_axis d j idx)"
      using d v j by (rule valid_index_insert)
    have "elem ?ca (insert_axis d j idx) = (\<Sum>i\<le>j. elem a (insert_axis d i idx))"
      using elem_cumsum [OF a d vj] len by (simp add: insert_axis_nth insert_axis_update)
    moreover have "elem ?cb (insert_axis d j idx) = (\<Sum>i\<le>j. elem b (insert_axis d i idx))"
      using elem_cumsum [OF b d vj] len by (simp add: insert_axis_nth insert_axis_update)
    ultimately show ?thesis
      using j by (simp add: elem_map [OF diff vj] elem_map2 [OF ca cb vj] ring_cdf_lane
          lessThan_Suc_atMost del: sum.lessThan_Suc sum.atMost_Suc)
  qed
  have "elem (ring_rps_nd s d a b) idx = (\<Sum>j \<in> {..<s ! d}. elem ?sq (insert_axis d j idx))"
    using elem_reduce_sum [OF sq d v] ca cb by (simp add: ring_rps_nd_def lift2_same)
  also have "\<dots> = (\<Sum>j \<in> {..<s ! d}.
      (ring_cdf (lane a d (s ! d) idx) (Suc j) - ring_cdf (lane b d (s ! d) idx) (Suc j)) ^ 2)"
    by (intro sum.cong) (simp_all add: step)
  also have "\<dots> = ring_rps (lane a d (s ! d) idx) (lane b d (s ! d) idx)"
    unfolding ring_rps_def
    by (rule sum.reindex_bij_witness [where i = "\<lambda>k. k - 1" and j = Suc])
       (auto simp: lane_def)
  finally show ?thesis .
qed

lemma conforms_ring_rps_nd:
  fixes a b :: "'a::comm_ring_1 ndarray"
  assumes a: "conforms s a" and b: "conforms s b" and d: "d < length s"
  shows "conforms (remove_axis d s) (ring_rps_nd s d a b)"
proof -
  have "conforms s (map_nd (\<lambda>v. v ^ 2) (map2_nd (-) (cumsum_nd d a) (cumsum_nd d b)))"
    using a b by (intro conforms_map conforms_map2 conforms_cumsum)
  then show ?thesis
    using a b d by (simp add: ring_rps_nd_def lift2_same conforms_cumsum conforms_reduce_sum)
qed

lemma ring_cdf_of_int:
  "ring_cdf (map of_int xs) k = (of_int (ring_cdf xs k) :: 'a::comm_ring_1)"
proof -
  have "sum_list (map of_int ys) = (of_int (sum_list ys) :: 'a)" for ys :: "int list"
    by (induction ys) simp_all
  then show ?thesis by (simp add: ring_cdf_def take_map)
qed

lemma ring_rps_of_int:
  "ring_rps (map of_int xs) (map of_int ys) = (of_int (ring_rps xs ys) :: 'a::comm_ring_1)"
  by (simp add: ring_rps_def ring_cdf_of_int)

lemma ring_rps_nonneg: "0 \<le> ring_rps (xs :: int list) ys"
  unfolding ring_rps_def by (rule sum_nonneg) simp

lemma lane_sint:
  fixes a :: "'a::len word ndarray"
  assumes a: "conforms s a" and d: "d < length s"
    and v: "valid_index (remove_axis d s) idx"
  shows "lane (map_nd sint a) d (s ! d) idx = map sint (lane a d (s ! d) idx)"
proof -
  have "elem (map_nd sint a) (insert_axis d j idx) = sint (elem a (insert_axis d j idx))"
    if "j < s ! d" for j
    using elem_map [OF a valid_index_insert [OF d v that]] .
  then show ?thesis by (simp add: lane_def)
qed

lemma sint_ring_rps_nd:
  fixes a b :: "'a::len word ndarray"
  assumes a: "conforms s a" and b: "conforms s b" and d: "d < length s"
    and v: "valid_index (remove_axis d s) idx"
  shows "elem (map_nd sint (ring_rps_nd s d a b)) idx =
    signed_take_bit (LENGTH('a) - 1)
      (ring_rps (lane (map_nd sint a) d (s ! d) idx) (lane (map_nd sint b) d (s ! d) idx))"
proof -
  let ?la = "lane a d (s ! d) idx" and ?lb = "lane b d (s ! d) idx"
  have "elem (map_nd sint (ring_rps_nd s d a b)) idx = sint (elem (ring_rps_nd s d a b) idx)"
    using elem_map [OF conforms_ring_rps_nd [OF a b d] v] .
  also have "\<dots> = sint (ring_rps ?la ?lb)"
    by (simp only: elem_ring_rps_nd [OF a b d v])
  also have "ring_rps ?la ?lb = ring_rps (map of_int (map sint ?la)) (map of_int (map sint ?lb))"
    by (simp add: comp_def)
  also have "\<dots> = (of_int (ring_rps (map sint ?la) (map sint ?lb)) :: 'a word)"
    by (rule ring_rps_of_int)
  also have "sint \<dots> = signed_take_bit (LENGTH('a) - 1) (ring_rps (map sint ?la) (map sint ?lb))"
    by (simp add: signed_of_int)
  finally show ?thesis
    by (simp add: lane_sint [OF a d v] lane_sint [OF b d v])
qed

lemma int_inputsD:
  assumes "int_inputs p t class_dim d"
  shows "well_formed p" "well_formed t" "shape p = shape t"
    "normalize_axis (length (shape p)) class_dim = Some d" "is_integer (dtype p)"
    "dtype t = dtype p"
  using assms unfolding int_inputs_def by blast+

lemma mixed_inputsD:
  assumes "mixed_inputs p t class_dim d"
  shows "shape p = shape t"
    "normalize_axis (length (shape p)) class_dim = Some d"
    "dtype t \<noteq> dtype p" "\<not> (is_floating (dtype p) \<and> is_integer (dtype t))"
  using assms unfolding mixed_inputs_def by blast+

lemma rps_mixed:
  assumes "mixed_inputs p t class_dim d"
  shows "ranked_probability_score p t class_dim = Inl DTypeMismatch"
  using mixed_inputsD [OF assms]
  by (cases "data p"; cases "data t")
     (simp_all add: ranked_probability_score_def compatible_get_shape dtype_def cumsum_def
        bind_def subtract_def Let_def)

lemma rps_int32:
  assumes "shape p = shape t" "normalize_axis (length (shape p)) class_dim = Some d"
    "data p = I32 a" "data t = I32 b"
  shows "ranked_probability_score p t class_dim =
     Inr \<lparr>shape = remove_axis d (shape p), data = I32 (ring_rps_nd (shape p) d a b)\<rparr>"
  using assms
  by (simp add: ranked_probability_score_def compatible_get_shape dtype_def cumsum_def
      bind_def subtract_def broadcast_shape_same square_def reduce_sum_def ring_rps_nd_def
      Let_def)

lemma rps_int64:
  assumes "shape p = shape t" "normalize_axis (length (shape p)) class_dim = Some d"
    "data p = I64 a" "data t = I64 b"
  shows "ranked_probability_score p t class_dim =
     Inr \<lparr>shape = remove_axis d (shape p), data = I64 (ring_rps_nd (shape p) d a b)\<rparr>"
  using assms
  by (simp add: ranked_probability_score_def compatible_get_shape dtype_def cumsum_def
      bind_def subtract_def broadcast_shape_same square_def reduce_sum_def ring_rps_nd_def
      Let_def)

lemma rps_integer_elem:
  assumes inp: "int_inputs p t class_dim d"
  shows "\<exists>r. ranked_probability_score p t class_dim = Inr r \<and> well_formed r \<and>
     shape r = remove_axis d (shape p) \<and> dtype r = dtype p \<and>
     (\<forall>idx. valid_index (shape r) idx \<longrightarrow>
        int_value_at r idx =
          wrap (dtype p) (ring_rps (int_class_lane p d idx) (int_class_lane t d idx)))"
proof -
  note h = int_inputsD [OF inp]
  let ?s = "shape p"
  have d: "d < length ?s" using h(4) by (rule normalize_axis_less)
  consider a b where "data p = I32 a" "data t = I32 b"
    | a b where "data p = I64 a" "data t = I64 b"
    using h(5,6) by (cases "data p"; cases "data t") (simp_all add: dtype_def)
  then show ?thesis
  proof cases
    case 1
    have ca: "conforms ?s a" and cb: "conforms ?s b"
      using h(1,2,3) 1 by (simp_all add: well_formed_def)
    let ?r = "\<lparr>shape = remove_axis d ?s, data = I32 (ring_rps_nd ?s d a b)\<rparr>"
    have "ranked_probability_score p t class_dim = Inr ?r"
      using h(3,4) 1 by (rule rps_int32)
    moreover have "well_formed ?r"
      using ca cb d by (simp add: well_formed_def conforms_ring_rps_nd)
    moreover have "dtype ?r = dtype p" using 1 by (simp add: dtype_def)
    moreover have "int_value_at ?r idx =
        wrap (dtype p) (ring_rps (int_class_lane p d idx) (int_class_lane t d idx))"
      if "valid_index (shape ?r) idx" for idx
      using sint_ring_rps_nd [OF ca cb d, of idx] that 1 h(3)
      by (simp add: int_value_at_def int_class_lane_def wrap_def dtype_def)
    ultimately show ?thesis by auto
  next
    case 2
    have ca: "conforms ?s a" and cb: "conforms ?s b"
      using h(1,2,3) 2 by (simp_all add: well_formed_def)
    let ?r = "\<lparr>shape = remove_axis d ?s, data = I64 (ring_rps_nd ?s d a b)\<rparr>"
    have "ranked_probability_score p t class_dim = Inr ?r"
      using h(3,4) 2 by (rule rps_int64)
    moreover have "well_formed ?r"
      using ca cb d by (simp add: well_formed_def conforms_ring_rps_nd)
    moreover have "dtype ?r = dtype p" using 2 by (simp add: dtype_def)
    moreover have "int_value_at ?r idx =
        wrap (dtype p) (ring_rps (int_class_lane p d idx) (int_class_lane t d idx))"
      if "valid_index (shape ?r) idx" for idx
      using sint_ring_rps_nd [OF ca cb d, of idx] that 2 h(3)
      by (simp add: int_value_at_def int_class_lane_def wrap_def dtype_def)
    ultimately show ?thesis by auto
  qed
qed

lemma wrap_fits:
  assumes "is_integer dt" "0 \<le> n" "n \<le> int_max dt"
  shows "wrap dt n = n"
  using assms
  by (cases dt) (simp_all add: wrap_def int_max_def signed_take_bit_int_eq_self)

lemma lane_signed:
  fixes a :: "'a::len word ndarray"
  assumes a: "conforms s a" and d: "d < length s"
    and v: "valid_index (remove_axis d s) idx"
  shows "lane (map_nd (\<lambda>w. real_of_int (sint w)) a) d (s ! d) idx =
    map real_of_int (lane (map_nd sint a) d (s ! d) idx)"
proof -
  have "elem (map_nd (\<lambda>w. real_of_int (sint w)) a) (insert_axis d j idx) =
      real_of_int (elem (map_nd sint a) (insert_axis d j idx))"
    if "j < s ! d" for j
  proof -
    have m: "valid_index s (insert_axis d j idx)"
      using d v that by (rule valid_index_insert)
    show ?thesis by (simp add: elem_map [OF a m])
  qed
  then show ?thesis by (simp add: lane_def)
qed

lemma class_lane_integer:
  assumes wf: "well_formed t" and i: "is_integer (dtype t)" and d: "d < length (shape t)"
    and v: "valid_index (remove_axis d (shape t)) idx"
  shows "class_lane t d idx = map real_of_int (int_class_lane t d idx)"
proof (cases "data t")
  case (F32 a)
  then show ?thesis using i by (simp add: dtype_def)
next
  case (F64 a)
  then show ?thesis using i by (simp add: dtype_def)
next
  case (I32 a)
  then have c: "conforms (shape t) a" using wf by (simp add: well_formed_def)
  show ?thesis
    unfolding class_lane_def int_class_lane_def I32 to_reals.simps to_ints.simps
    by (rule lane_signed [OF c d v])
next
  case (I64 a)
  then have c: "conforms (shape t) a" using wf by (simp add: well_formed_def)
  show ?thesis
    unfolding class_lane_def int_class_lane_def I64 to_reals.simps to_ints.simps
    by (rule lane_signed [OF c d v])
qed

lemma class_lane_cast:
  "is_floating dt \<Longrightarrow> class_lane (cast t dt) d idx = class_lane t d idx"
  by (cases dt) (simp_all add: class_lane_def cast_def)

lemma well_formed_cast: "well_formed t \<Longrightarrow> is_floating dt \<Longrightarrow> well_formed (cast t dt)"
  by (cases dt) (simp_all add: well_formed_def cast_def conforms_to_reals)

lemma dtype_cast: "dtype (cast t dt) = dt"
  by (cases dt) (simp_all add: cast_def dtype_def)

lemma subtract_uncast:
  assumes "normalize_axis (length (shape p)) class_dim = Some d" "shape p = shape t"
    "is_floating (dtype p)" "is_integer (dtype t)"
  shows "\<exists>a b. cumsum p class_dim = Inr a \<and> cumsum t class_dim = Inr b \<and>
    subtract a b = Inl DTypeMismatch"
  using assms
  by (cases "data p"; cases "data t") (simp_all add: cumsum_def subtract_def dtype_def)

lemma value_at_integer:
  assumes wf: "well_formed r" and i: "is_integer (dtype r)" and v: "valid_index (shape r) idx"
  shows "value_at r idx = real_of_int (int_value_at r idx)"
proof (cases "data r")
  case (F32 a)
  then show ?thesis using i by (simp add: dtype_def)
next
  case (F64 a)
  then show ?thesis using i by (simp add: dtype_def)
next
  case (I32 a)
  then have c: "conforms (shape r) a" using wf by (simp add: well_formed_def)
  show ?thesis
    unfolding value_at_def int_value_at_def I32 to_reals.simps to_ints.simps
    by (simp only: elem_map [OF c v])
next
  case (I64 a)
  then have c: "conforms (shape r) a" using wf by (simp add: well_formed_def)
  show ?thesis
    unfolding value_at_def int_value_at_def I64 to_reals.simps to_ints.simps
    by (simp only: elem_map [OF c v])
qed

lemma example_int_inputs: "int_inputs example_int_predictions example_targets (- 1) 1"
  by (simp add: int_inputs_def example_int_predictions_def example_targets_def well_formed_def
      normalize_axis_def dtype_def)

lemma example_mixed_inputs: "mixed_inputs example_targets example_predictions (- 1) 1"
  by (simp add: mixed_inputs_def example_predictions_def example_targets_def well_formed_def
      normalize_axis_def dtype_def)

lemma example_int_batch_index:
  "valid_index (remove_axis 1 (shape example_int_predictions)) idx \<longleftrightarrow> idx = [0] \<or> idx = [1]"
  by (auto simp: example_int_predictions_def remove_axis_def valid_index_Cons)

lemma example_int_lanes:
  "int_class_lane example_int_predictions 1 [0] = [1, 0, 0]"
  "int_class_lane example_int_predictions 1 [1] = [0, 3, - 2]"
  "int_class_lane example_targets 1 [0] = [0, 0, 1]"
  "int_class_lane example_targets 1 [1] = [0, 1, 0]"
  by (simp_all add: int_class_lane_def lane_def example_int_predictions_def example_targets_def
      insert_axis_def upt_conv_Cons)

lemma example_int_scores:
  "ring_rps [1, 0, 0] [0, 0, 1] = (2::int)" "ring_rps [0, 3, - 2] [0, 1, 0] = (4::int)"
  by (simp_all add: ring_rps_def ring_cdf_def numeral_3_eq_3)

section \<open>The claims\<close>

text \<open>
  C1. For well-formed predictions and targets of one shape and a class dimension valid
  for that shape, \<open>ranked_probability_score\<close> returns a tensor without the class
  dimension. With floating-point predictions, and targets of the same dtype or of an
  integer dtype, its value at every batch index is the sum over \<open>k = 1..K\<close> of the
  squared difference of the two cumulative sums of the first \<open>k\<close> entries along the
  class dimension. With integer predictions and targets of the same dtype, the value is
  that sum wrapped to the dtype. Any other two dtypes end in the framework's dtype
  error. With \<open>K = 3\<close>, prediction \<open>[1,0,0]\<close> and target \<open>[0,0,1]\<close> give 2.
  As stated for every pair of numeric arrays the property fails: the int32 prediction
  \<open>[65536]\<close> against \<open>[0]\<close> gives 0, not 4294967296, and a float32 prediction
  against a float64 target gives no result.
\<close>

theorem ranked_probability_score_formula:
  "(rps_inputs p t class_dim d \<longrightarrow>
    (\<exists>r. ranked_probability_score p t class_dim = Inr r \<and> well_formed r \<and>
       shape r = remove_axis d (shape p) \<and> dtype r = dtype p \<and>
       (\<forall>idx. valid_index (shape r) idx \<longrightarrow>
          value_at r idx = rps_spec (class_lane p d idx) (class_lane t d idx)))) \<and>
   (int_inputs p t class_dim d \<longrightarrow>
    (\<exists>r. ranked_probability_score p t class_dim = Inr r \<and> well_formed r \<and>
       shape r = remove_axis d (shape p) \<and> dtype r = dtype p \<and>
       (\<forall>idx. valid_index (shape r) idx \<longrightarrow>
          int_value_at r idx =
            wrap (dtype p) (ring_rps (int_class_lane p d idx) (int_class_lane t d idx))))) \<and>
   (mixed_inputs p t class_dim d \<longrightarrow>
      ranked_probability_score p t class_dim = Inl DTypeMismatch) \<and>
   ranked_probability_score (float_vector DT_FLOAT [1, 0, 0]) (float_vector DT_FLOAT [0, 0, 1]) 0 =
     Inr (float_scalar DT_FLOAT 2) \<and>
   ranked_probability_score (float_vector DT_FLOAT [1, 0, 0]) (int32_vector [0, 0, 1]) 0 =
     Inr (float_scalar DT_FLOAT 2) \<and>
   ranked_probability_score (int32_vector [1, 0, 0]) (int32_vector [0, 0, 1]) 0 =
     Inr (int32_scalar 2)"
proof (intro conjI impI)
  assume inp: "rps_inputs p t class_dim d"
  show "\<exists>r. ranked_probability_score p t class_dim = Inr r \<and> well_formed r \<and>
       shape r = remove_axis d (shape p) \<and> dtype r = dtype p \<and>
       (\<forall>idx. valid_index (shape r) idx \<longrightarrow>
          value_at r idx = rps_spec (class_lane p d idx) (class_lane t d idx))"
    by (rule rps_floating_elem [OF rps_inputsD [OF inp]])
next
  assume inp: "int_inputs p t class_dim d"
  show "\<exists>r. ranked_probability_score p t class_dim = Inr r \<and> well_formed r \<and>
       shape r = remove_axis d (shape p) \<and> dtype r = dtype p \<and>
       (\<forall>idx. valid_index (shape r) idx \<longrightarrow>
          int_value_at r idx =
            wrap (dtype p) (ring_rps (int_class_lane p d idx) (int_class_lane t d idx)))"
    using inp by (rule rps_integer_elem)
next
  assume "mixed_inputs p t class_dim d"
  then show "ranked_probability_score p t class_dim = Inl DTypeMismatch"
    by (rule rps_mixed)
next
  show "ranked_probability_score (float_vector DT_FLOAT [1, 0, 0]) (float_vector DT_FLOAT [0, 0, 1]) 0 =
     Inr (float_scalar DT_FLOAT 2)"
    by (simp add: ranked_probability_score_def compatible_get_shape float_vector_def
        float_scalar_def floats_def dtype_def cumsum_def normalize_axis_def bind_def
        subtract_def broadcast_shape_def lift2_def square_def reduce_sum_def remove_axis_def
        Let_def)
next
  show "ranked_probability_score (float_vector DT_FLOAT [1, 0, 0]) (int32_vector [0, 0, 1]) 0 =
     Inr (float_scalar DT_FLOAT 2)"
    by (simp add: ranked_probability_score_def compatible_get_shape float_vector_def
        int32_vector_def cast_def
        float_scalar_def floats_def dtype_def cumsum_def normalize_axis_def bind_def
        subtract_def broadcast_shape_def lift2_def square_def reduce_sum_def remove_axis_def
        Let_def)
next
  show "ranked_probability_score (int32_vector [1, 0, 0]) (int32_vector [0, 0, 1]) 0 =
     Inr (int32_scalar 2)"
    by (simp add: ranked_probability_score_def compatible_get_shape
        int32_vector_def int32_scalar_def
        dtype_def cumsum_def normalize_axis_def bind_def
        subtract_def broadcast_shape_def lift2_def square_def reduce_sum_def remove_axis_def
        Let_def)
qed

theorem ranked_probability_score_formula_witness:
  "rps_inputs example_predictions example_targets (- 1) 1 \<and>
   (\<exists>r. ranked_probability_score example_predictions example_targets (- 1) = Inr r \<and>
      well_formed r \<and> shape r = remove_axis 1 (shape example_predictions) \<and>
      dtype r = dtype example_predictions \<and>
      (\<forall>idx. valid_index (shape r) idx \<longrightarrow>
         value_at r idx =
           rps_spec (class_lane example_predictions 1 idx) (class_lane example_targets 1 idx))) \<and>
   int_inputs example_int_predictions example_targets (- 1) 1 \<and>
   (\<exists>r. ranked_probability_score example_int_predictions example_targets (- 1) = Inr r \<and>
      well_formed r \<and> shape r = remove_axis 1 (shape example_int_predictions) \<and>
      dtype r = dtype example_int_predictions \<and>
      (\<forall>idx. valid_index (shape r) idx \<longrightarrow>
         int_value_at r idx =
           wrap (dtype example_int_predictions)
             (ring_rps (int_class_lane example_int_predictions 1 idx)
                (int_class_lane example_targets 1 idx)))) \<and>
   mixed_inputs example_targets example_predictions (- 1) 1 \<and>
   ranked_probability_score example_targets example_predictions (- 1) = Inl DTypeMismatch"
  using ranked_probability_score_formula [of example_predictions example_targets "- 1" 1]
    ranked_probability_score_formula [of example_int_predictions example_targets "- 1" 1]
    ranked_probability_score_formula [of example_targets example_predictions "- 1" 1]
    example_inputs example_int_inputs example_mixed_inputs
  by blast

theorem ranked_probability_score_formula_counterexample:
  "ranked_probability_score (int32_vector [65536]) (int32_vector [0]) 0 =
     Inr (int32_scalar 0) \<and>
   value_at (int32_scalar 0) [] = 0 \<and>
   rps_spec (class_lane (int32_vector [65536]) 0 []) (class_lane (int32_vector [0]) 0 []) =
     4294967296 \<and>
   ranked_probability_score (float_vector DT_FLOAT [1, 0, 0])
     (float_vector DT_DOUBLE [0, 0, 1]) 0 = Inl DTypeMismatch"
proof (intro conjI)
  show "ranked_probability_score (int32_vector [65536]) (int32_vector [0]) 0 =
     Inr (int32_scalar 0)"
    by (simp add: ranked_probability_score_def compatible_get_shape
        int32_vector_def int32_scalar_def
        dtype_def cumsum_def normalize_axis_def bind_def
        subtract_def broadcast_shape_def lift2_def square_def reduce_sum_def remove_axis_def
        Let_def)
  show "value_at (int32_scalar 0) [] = 0"
    by (simp add: value_at_def int32_scalar_def)
  have "class_lane (int32_vector [65536]) 0 [] = [65536]"
      "class_lane (int32_vector [0]) 0 [] = [0]"
    by (simp_all add: class_lane_def int32_vector_def lane_def insert_axis_def)
  then show "rps_spec (class_lane (int32_vector [65536]) 0 [])
      (class_lane (int32_vector [0]) 0 []) = 4294967296"
    by (simp add: rps_spec_def cdf_def)
  show "ranked_probability_score (float_vector DT_FLOAT [1, 0, 0])
     (float_vector DT_DOUBLE [0, 0, 1]) 0 = Inl DTypeMismatch"
    by (simp add: ranked_probability_score_def compatible_get_shape float_vector_def floats_def
        dtype_def cumsum_def normalize_axis_def bind_def subtract_def)
qed

text \<open>
  C2. When every vector of the predictions and of the targets along the class dimension
  is a probability vector (non-negative entries that sum to one), every value
  \<open>ranked_probability_score\<close> returns lies between 0 and \<open>K - 1\<close>, and it is 0
  exactly when the two cumulative sums agree at every rank \<open>1..K\<close> (equivalently, when
  the two vectors are equal). The score of a prediction against itself is 0 everywhere.
\<close>

theorem ranked_probability_score_range:
  "rps_inputs p t class_dim d \<and>
   (\<forall>idx. valid_index (remove_axis d (shape p)) idx \<longrightarrow>
      is_distribution (class_lane p d idx) \<and> is_distribution (class_lane t d idx)) \<longrightarrow>
   (\<exists>r. ranked_probability_score p t class_dim = Inr r \<and>
      shape r = remove_axis d (shape p) \<and>
      (\<forall>idx. valid_index (shape r) idx \<longrightarrow>
         0 \<le> value_at r idx \<and> value_at r idx \<le> real (shape p ! d) - 1 \<and>
         (value_at r idx = 0 \<longleftrightarrow>
            (\<forall>k\<in>{1..shape p ! d}. cdf (class_lane p d idx) k = cdf (class_lane t d idx) k)) \<and>
         (value_at r idx = 0 \<longleftrightarrow> class_lane p d idx = class_lane t d idx))) \<and>
   (\<exists>r. ranked_probability_score p p class_dim = Inr r \<and>
      shape r = remove_axis d (shape p) \<and>
      (\<forall>idx. valid_index (shape r) idx \<longrightarrow> value_at r idx = 0))"
proof (intro impI, elim conjE)
  assume inp: "rps_inputs p t class_dim d"
    and dist: "\<forall>idx. valid_index (remove_axis d (shape p)) idx \<longrightarrow>
      is_distribution (class_lane p d idx) \<and> is_distribution (class_lane t d idx)"
  note h = rps_inputsD [OF inp]
  from rps_floating_elem [OF h] obtain r where
    r: "ranked_probability_score p t class_dim = Inr r" "shape r = remove_axis d (shape p)"
      "\<And>idx. valid_index (shape r) idx \<Longrightarrow>
         value_at r idx = rps_spec (class_lane p d idx) (class_lane t d idx)"
    by blast
  from rps_floating_elem [OF h(1) h(1) refl h(4) h(5)] obtain r' where
    r': "ranked_probability_score p p class_dim = Inr r'" "shape r' = remove_axis d (shape p)"
      "\<And>idx. valid_index (shape r') idx \<Longrightarrow>
         value_at r' idx = rps_spec (class_lane p d idx) (class_lane p d idx)"
    by blast
  have main: "0 \<le> value_at r idx \<and> value_at r idx \<le> real (shape p ! d) - 1 \<and>
         (value_at r idx = 0 \<longleftrightarrow>
            (\<forall>k\<in>{1..shape p ! d}. cdf (class_lane p d idx) k = cdf (class_lane t d idx) k)) \<and>
         (value_at r idx = 0 \<longleftrightarrow> class_lane p d idx = class_lane t d idx)"
    if v: "valid_index (shape r) idx" for idx
  proof -
    let ?p = "class_lane p d idx" and ?t = "class_lane t d idx"
    have len: "length ?p = length ?t" using h(3) by simp
    have dp: "is_distribution ?p" and dt: "is_distribution ?t"
      using dist v r(2) by simp_all
    have val: "value_at r idx = rps_spec ?p ?t" using v by (rule r(3))
    have up: "rps_spec ?p ?t \<le> real (shape p ! d) - 1"
      using rps_spec_upper [OF dp dt len] by simp
    have z: "rps_spec ?p ?t = 0 \<longleftrightarrow> (\<forall>k\<in>{1..shape p ! d}. cdf ?p k = cdf ?t k)"
      using rps_spec_zero_iff [of ?p ?t] by simp
    have e: "(\<forall>k\<in>{1..shape p ! d}. cdf ?p k = cdf ?t k) \<longleftrightarrow> ?p = ?t"
      using cdf_eq_imp_eq [OF len] by auto
    show ?thesis
      unfolding val using rps_spec_nonneg [of ?p ?t] up z e by blast
  qed
  have self: "value_at r' idx = 0" if "valid_index (shape r') idx" for idx
    using r'(3) [OF that] by (simp add: rps_spec_self)
  show "(\<exists>r. ranked_probability_score p t class_dim = Inr r \<and>
      shape r = remove_axis d (shape p) \<and>
      (\<forall>idx. valid_index (shape r) idx \<longrightarrow>
         0 \<le> value_at r idx \<and> value_at r idx \<le> real (shape p ! d) - 1 \<and>
         (value_at r idx = 0 \<longleftrightarrow>
            (\<forall>k\<in>{1..shape p ! d}. cdf (class_lane p d idx) k = cdf (class_lane t d idx) k)) \<and>
         (value_at r idx = 0 \<longleftrightarrow> class_lane p d idx = class_lane t d idx))) \<and>
   (\<exists>r. ranked_probability_score p p class_dim = Inr r \<and>
      shape r = remove_axis d (shape p) \<and>
      (\<forall>idx. valid_index (shape r) idx \<longrightarrow> value_at r idx = 0))"
    using r(1,2) r'(1,2) main self by blast
qed

theorem ranked_probability_score_range_witness:
  "rps_inputs example_predictions example_targets (- 1) 1 \<and>
   is_distribution (class_lane example_predictions 1 [0]) \<and>
   is_distribution (class_lane example_predictions 1 [1]) \<and>
   is_distribution (class_lane example_targets 1 [0]) \<and>
   is_distribution (class_lane example_targets 1 [1]) \<and>
   (\<exists>r. ranked_probability_score example_predictions example_targets (- 1) = Inr r \<and>
      shape r = remove_axis 1 (shape example_predictions) \<and>
      (\<forall>idx. valid_index (shape r) idx \<longrightarrow>
         0 \<le> value_at r idx \<and> value_at r idx \<le> real (shape example_predictions ! 1) - 1 \<and>
         (value_at r idx = 0 \<longleftrightarrow>
            (\<forall>k\<in>{1..shape example_predictions ! 1}. cdf (class_lane example_predictions 1 idx) k = cdf (class_lane example_targets 1 idx) k)) \<and>
         (value_at r idx = 0 \<longleftrightarrow> class_lane example_predictions 1 idx = class_lane example_targets 1 idx))) \<and>
   (\<exists>r. ranked_probability_score example_predictions example_predictions (- 1) = Inr r \<and>
      shape r = remove_axis 1 (shape example_predictions) \<and>
      (\<forall>idx. valid_index (shape r) idx \<longrightarrow> value_at r idx = 0))"
proof -
  have d: "\<forall>idx. valid_index (remove_axis 1 (shape example_predictions)) idx \<longrightarrow>
      is_distribution (class_lane example_predictions 1 idx) \<and> is_distribution (class_lane example_targets 1 idx)"
  proof (intro allI impI)
    fix idx assume "valid_index (remove_axis 1 (shape example_predictions)) idx"
    then have "idx = [0] \<or> idx = [1]" by (simp only: example_batch_index)
    then show "is_distribution (class_lane example_predictions 1 idx) \<and> is_distribution (class_lane example_targets 1 idx)"
      by (elim disjE) (simp_all add: example_lanes is_distribution_def del: One_nat_def)
  qed
  have l: "is_distribution (class_lane example_predictions 1 [0])"
      "is_distribution (class_lane example_predictions 1 [1])"
      "is_distribution (class_lane example_targets 1 [0])"
      "is_distribution (class_lane example_targets 1 [1])"
    by (simp_all add: example_lanes is_distribution_def del: One_nat_def)
  from ranked_probability_score_range [of example_predictions example_targets "- 1" 1]
    example_inputs d l
  show ?thesis by blast
qed

text \<open>
  C3. For two one-hot vectors over \<open>K\<close> ranked classes with hot indices \<open>i\<close> and
  \<open>j\<close>, \<open>ranked_probability_score\<close> returns the distance between \<open>i\<close> and \<open>j\<close>,
  whether the one-hot target is floating-point or integer.
\<close>

theorem ranked_probability_score_one_hot:
  "i < K \<and> j < K \<and> is_floating dt \<longrightarrow>
   ranked_probability_score (float_vector dt (one_hot K i)) (float_vector dt (one_hot K j)) 0 =
     Inr (float_scalar dt (real (if i \<le> j then j - i else i - j))) \<and>
   ranked_probability_score (float_vector dt (one_hot K i)) (int32_vector (one_hot_int K j)) 0 =
     Inr (float_scalar dt (real (if i \<le> j then j - i else i - j)))"
proof (intro impI, elim conjE)
  assume i: "i < K" and j: "j < K" and fl: "is_floating dt"
  have len: "length (one_hot K i) = length (one_hot K j)" "length (one_hot K i) = K"
    by simp_all
  have dist: "rps_spec (one_hot K i) (one_hot K j) = real (if i \<le> j then j - i else i - j)"
    using i j by (rule rps_spec_one_hot)
  have "ranked_probability_score (float_vector dt (one_hot K i))
      (float_vector dt (one_hot K j)) 0 =
      Inr (float_scalar dt (rps_spec (one_hot K i) (one_hot K j)))"
    using fl len(1) by (rule rps_float_vectors)
  moreover have "ranked_probability_score (float_vector dt (one_hot K i))
      (int32_vector (one_hot_int K j)) 0 =
      Inr (float_scalar dt (rps_spec (one_hot K i) (one_hot K j)))"
    using fl len(2) by (rule rps_int32_one_hot)
  ultimately show
    "ranked_probability_score (float_vector dt (one_hot K i)) (float_vector dt (one_hot K j)) 0 =
       Inr (float_scalar dt (real (if i \<le> j then j - i else i - j))) \<and>
     ranked_probability_score (float_vector dt (one_hot K i)) (int32_vector (one_hot_int K j)) 0 =
       Inr (float_scalar dt (real (if i \<le> j then j - i else i - j)))"
    unfolding dist by simp
qed

theorem ranked_probability_score_one_hot_witness:
  "(0::nat) < 3 \<and> (2::nat) < 3 \<and> is_floating DT_FLOAT \<and>
   ranked_probability_score (float_vector DT_FLOAT (one_hot 3 0))
     (float_vector DT_FLOAT (one_hot 3 2)) 0 = Inr (float_scalar DT_FLOAT 2) \<and>
   ranked_probability_score (float_vector DT_FLOAT (one_hot 3 0))
     (int32_vector (one_hot_int 3 2)) 0 = Inr (float_scalar DT_FLOAT 2)"
  using ranked_probability_score_one_hot [of 0 3 2 DT_FLOAT] by simp

text \<open>
  C4. The score is strictly proper: for a true distribution \<open>q\<close> over \<open>K\<close> ranked
  classes and a predicted distribution \<open>p\<close>, every call that the expected score sums
  over returns a value, the expected score of \<open>p\<close> is at least the expected score of
  \<open>q\<close>, and the two are equal only when \<open>p = q\<close>.
\<close>

theorem ranked_probability_score_strictly_proper:
  "is_floating dt \<and> is_distribution q \<and> is_distribution p \<and> length p = length q \<longrightarrow>
   (\<forall>i<length q. \<exists>v.
      ranked_probability_score (float_vector dt p) (float_vector dt (one_hot (length q) i)) 0 =
        Inr (float_scalar dt v)) \<and>
   expected_score dt q q \<le> expected_score dt q p \<and>
   (expected_score dt q p = expected_score dt q q \<longleftrightarrow> p = q)"
proof (intro impI, elim conjE)
  assume fl: "is_floating dt" and q: "is_distribution q" and len: "length p = length q"
  have tot: "sum_list q = 1" using q by (simp add: is_distribution_def)
  have e: "expected_score dt q p = expected_rps q p" "expected_score dt q q = expected_rps q q"
    using fl len by (simp_all add: expected_score_eq)
  show "(\<forall>i<length q. \<exists>v.
      ranked_probability_score (float_vector dt p) (float_vector dt (one_hot (length q) i)) 0 =
        Inr (float_scalar dt v)) \<and>
   expected_score dt q q \<le> expected_score dt q p \<and>
   (expected_score dt q p = expected_score dt q q \<longleftrightarrow> p = q)"
    unfolding e
    using expected_rps_proper(2,3) [OF tot len] fl len
    by (auto simp: rps_float_vectors)
qed

theorem ranked_probability_score_strictly_proper_witness:
  "is_floating DT_DOUBLE \<and> is_distribution [1/2, 1/2] \<and> is_distribution [1, 0] \<and>
   length [1::real, 0] = length [1/2::real, 1/2] \<and>
   expected_score DT_DOUBLE [1/2, 1/2] [1/2, 1/2] \<le> expected_score DT_DOUBLE [1/2, 1/2] [1, 0] \<and>
   expected_score DT_DOUBLE [1/2, 1/2] [1, 0] \<noteq> expected_score DT_DOUBLE [1/2, 1/2] [1/2, 1/2]"
proof -
  have h: "is_floating DT_DOUBLE \<and> is_distribution [1/2, 1/2] \<and> is_distribution [1, 0] \<and>
    length [1::real, 0] = length [1/2::real, 1/2]"
    by (simp add: is_distribution_def)
  from ranked_probability_score_strictly_proper [of DT_DOUBLE "[1/2, 1/2]" "[1, 0]"] h
  show ?thesis by simp
qed

text \<open>
  C5. \<open>ranked_probability_score\<close> fails with its shape error exactly when the two
  shapes are not compatible, which for fully defined shapes means that they differ; it
  then returns no tensor. Three classes against four fail, and so do three classes
  against one, which the framework's subtraction alone would have broadcast.
\<close>

theorem ranked_probability_score_shape_check:
  "(ranked_probability_score p t class_dim = Inl IncompatibleShapes \<longleftrightarrow>
      \<not> is_compatible_with (get_shape p) (get_shape t)) \<and>
   (is_compatible_with (get_shape p) (get_shape t) \<longleftrightarrow> shape p = shape t) \<and>
   ranked_probability_score (float_vector DT_FLOAT [1, 0, 0]) (float_vector DT_FLOAT [0, 0, 0, 1]) 0 =
     Inl IncompatibleShapes \<and>
   ranked_probability_score (float_vector DT_FLOAT [1, 0, 0]) (float_vector DT_FLOAT [1]) 0 =
     Inl IncompatibleShapes \<and>
   subtract (float_vector DT_FLOAT [1, 0, 0]) (float_vector DT_FLOAT [1]) =
     Inr (float_vector DT_FLOAT [0, - 1, - 1])"
proof (intro conjI)
  show "ranked_probability_score p t class_dim = Inl IncompatibleShapes \<longleftrightarrow>
      \<not> is_compatible_with (get_shape p) (get_shape t)"
    by (auto simp: ranked_probability_score_def bind_def cumsum_def subtract_def
        reduce_sum_def Let_def split: sum.splits option.splits if_splits)
  show "is_compatible_with (get_shape p) (get_shape t) \<longleftrightarrow> shape p = shape t"
    by (rule compatible_get_shape)
  show "ranked_probability_score (float_vector DT_FLOAT [1, 0, 0]) (float_vector DT_FLOAT [0, 0, 0, 1]) 0 =
     Inl IncompatibleShapes"
    by (simp add: ranked_probability_score_def compatible_get_shape)
  show "ranked_probability_score (float_vector DT_FLOAT [1, 0, 0]) (float_vector DT_FLOAT [1]) 0 =
     Inl IncompatibleShapes"
    by (simp add: ranked_probability_score_def compatible_get_shape)
  show "subtract (float_vector DT_FLOAT [1, 0, 0]) (float_vector DT_FLOAT [1]) =
     Inr (float_vector DT_FLOAT [0, - 1, - 1])"
    by (simp add: subtract_def float_vector_def floats_def dtype_def broadcast_shape_def
        lift2_def)
qed

text \<open>
  C6. For an image batch (a tensor of shape batch, height, width, channels whose height
  and width the two pooling layers accept) and every class count, \<open>miq_model\<close> with
  model id 0 and with model id 1 both return logits of shape
  \<open>[batch size, class count]\<close>; the two layer stacks differ only in the dilation rate
  of the second convolution (1 and 2); every other model id fails with the
  unsupported-model error.
\<close>

theorem miq_model_dispatch:
  "(image_batch images b \<longrightarrow>
      (\<exists>logits0 logits1.
         miq_model images num_classes is_training 0 = Inr logits0 \<and>
         miq_model images num_classes is_training 1 = Inr logits1 \<and>
         net_shape logits0 = [b, num_classes] \<and>
         net_shape logits1 = [b, num_classes] \<and>
         net_layers logits0 = net_layers images @ layer_stack num_classes is_training 1 \<and>
         net_layers logits1 = net_layers images @ layer_stack num_classes is_training 2)) \<and>
   layer_stack num_classes is_training 2 =
     (layer_stack num_classes is_training 1)[2 := Conv2d ''conv2'' 64 (5, 5) SAME 2] \<and>
   (model_id \<noteq> 0 \<and> model_id \<noteq> 1 \<longrightarrow>
      miq_model images num_classes is_training model_id = Inl (UnsupportedModel model_id))"
proof (intro conjI impI)
  assume ib: "image_batch images b"
  from model_image_batch [OF ib, of num_classes is_training 1] obtain l0 where
    l0: "model images num_classes is_training 1 = Inr l0" "net_shape l0 = [b, num_classes]"
      "net_layers l0 = net_layers images @ layer_stack num_classes is_training 1"
    by blast
  from model_image_batch [OF ib, of num_classes is_training 2] obtain l1 where
    l1: "model images num_classes is_training 2 = Inr l1" "net_shape l1 = [b, num_classes]"
      "net_layers l1 = net_layers images @ layer_stack num_classes is_training 2"
    by blast
  have "miq_model images num_classes is_training 0 = Inr l0"
    using l0(1) by (simp add: miq_model_def model_v0_def)
  moreover have "miq_model images num_classes is_training 1 = Inr l1"
    using l1(1) by (simp add: miq_model_def model_v1_def)
  ultimately show "\<exists>logits0 logits1.
         miq_model images num_classes is_training 0 = Inr logits0 \<and>
         miq_model images num_classes is_training 1 = Inr logits1 \<and>
         net_shape logits0 = [b, num_classes] \<and>
         net_shape logits1 = [b, num_classes] \<and>
         net_layers logits0 = net_layers images @ layer_stack num_classes is_training 1 \<and>
         net_layers logits1 = net_layers images @ layer_stack num_classes is_training 2"
    using l0(2,3) l1(2,3) by blast
next
  show "layer_stack num_classes is_training 2 =
     (layer_stack num_classes is_training 1)[2 := Conv2d ''conv2'' 64 (5, 5) SAME 2]"
    by (simp add: layer_stack_def numeral_2_eq_2)
next
  assume "model_id \<noteq> 0 \<and> model_id \<noteq> 1"
  then show "miq_model images num_classes is_training model_id = Inl (UnsupportedModel model_id)"
    by (simp add: miq_model_def)
qed

theorem miq_model_dispatch_witness:
  "image_batch (input_images [7, 84, 84, 1]) 7 \<and> (2::int) \<noteq> 0 \<and> (2::int) \<noteq> 1 \<and>
   (\<exists>logits0 logits1.
      miq_model (input_images [7, 84, 84, 1]) 11 False 0 = Inr logits0 \<and>
      miq_model (input_images [7, 84, 84, 1]) 11 False 1 = Inr logits1 \<and>
      net_shape logits0 = [7, 11] \<and> net_shape logits1 = [7, 11]) \<and>
   miq_model (input_images [7, 84, 84, 1]) 11 False 2 = Inl (UnsupportedModel 2)"
proof -
  have h: "image_batch (input_images [7, 84, 84, 1]) 7"
    by (simp add: image_batch_def input_images_def)
  from miq_model_dispatch [of "input_images [7, 84, 84, 1]" 7 11 False 2] h
  show ?thesis by auto
qed

text \<open>
  C7. With \<open>use_rank_loss\<close> true, \<open>add_loss\<close> adds to the losses the mean over the
  batch of \<open>ranked_probability_score\<close> applied to the softmax of the logits and the
  one-hot labels along dimension 1; with \<open>use_rank_loss\<close> false it adds the mean
  softmax cross-entropy. The flag selects between exactly these two computations.
\<close>

theorem add_loss_selects:
  "(loss_inputs logits one_hot_labels b n \<longrightarrow>
      add_loss logits one_hot_labels True g =
        Inr (tf_losses_add_loss
               (float_scalar (dtype logits) (mean_rank_loss logits one_hot_labels b)) g) \<and>
      add_loss logits one_hot_labels False g =
        Inr (tf_losses_add_loss
               (float_scalar (dtype logits) (mean_cross_entropy logits one_hot_labels b)) g)) \<and>
   add_loss logits one_hot_labels True g =
     bind (softmax logits) (\<lambda>probabilities.
     bind (ranked_probability_score probabilities one_hot_labels 1) (\<lambda>rank_loss.
     bind (reduce_mean rank_loss) (\<lambda>mean_loss.
     Inr (tf_losses_add_loss mean_loss g)))) \<and>
   add_loss logits one_hot_labels False g = softmax_cross_entropy logits one_hot_labels g"
proof (intro conjI impI)
  assume inp: "loss_inputs logits one_hot_labels b n"
  show "add_loss logits one_hot_labels True g =
        Inr (tf_losses_add_loss
               (float_scalar (dtype logits) (mean_rank_loss logits one_hot_labels b)) g)"
    using inp by (rule add_loss_rank)
  show "add_loss logits one_hot_labels False g =
        Inr (tf_losses_add_loss
               (float_scalar (dtype logits) (mean_cross_entropy logits one_hot_labels b)) g)"
    using inp by (rule add_loss_cross_entropy)
next
  show "add_loss logits one_hot_labels True g =
     bind (softmax logits) (\<lambda>probabilities.
     bind (ranked_probability_score probabilities one_hot_labels 1) (\<lambda>rank_loss.
     bind (reduce_mean rank_loss) (\<lambda>mean_loss.
     Inr (tf_losses_add_loss mean_loss g))))"
    by (simp add: add_loss_def)
next
  show "add_loss logits one_hot_labels False g = softmax_cross_entropy logits one_hot_labels g"
    by (simp add: add_loss_def)
qed

theorem add_loss_selects_witness:
  "loss_inputs example_logits example_labels 1 2 \<and>
   add_loss example_logits example_labels True \<lparr>losses = []\<rparr> =
     Inr \<lparr>losses = [float_scalar DT_FLOAT (1/4)]\<rparr> \<and>
   add_loss example_logits example_labels False \<lparr>losses = []\<rparr> =
     Inr \<lparr>losses = [float_scalar DT_FLOAT (ln 2)]\<rparr>"
proof -
  have d: "dtype example_logits = DT_FLOAT" by (simp add: dtype_def example_logits_def)
  from add_loss_selects [of example_logits example_labels 1 2 "\<lparr>losses = []\<rparr>"]
    example_loss_inputs
  have r: "add_loss example_logits example_labels True \<lparr>losses = []\<rparr> =
      Inr (tf_losses_add_loss (float_scalar (dtype example_logits)
             (mean_rank_loss example_logits example_labels 1)) \<lparr>losses = []\<rparr>)"
    "add_loss example_logits example_labels False \<lparr>losses = []\<rparr> =
      Inr (tf_losses_add_loss (float_scalar (dtype example_logits)
             (mean_cross_entropy example_logits example_labels 1)) \<lparr>losses = []\<rparr>)"
    by blast+
  show ?thesis
    unfolding r example_mean_rank_loss example_mean_cross_entropy d
    using example_loss_inputs by (simp add: tf_losses_add_loss_def)
qed

text \<open>
  C8. Reversing the class order of predictions and targets together leaves the result of
  \<open>ranked_probability_score\<close> unchanged, given that along the class dimension every
  prediction vector and its target vector sum to the same total.
\<close>

theorem ranked_probability_score_reversal:
  "rps_inputs p t class_dim d \<and>
   (\<forall>idx. valid_index (remove_axis d (shape p)) idx \<longrightarrow>
      sum_list (class_lane p d idx) = sum_list (class_lane t d idx)) \<longrightarrow>
   (\<exists>p' t' r. reverse p class_dim = Inr p' \<and> reverse t class_dim = Inr t' \<and>
      ranked_probability_score p t class_dim = Inr r \<and>
      ranked_probability_score p' t' class_dim = Inr r)"
proof (intro impI, elim conjE)
  assume inp: "rps_inputs p t class_dim d"
    and tot: "\<forall>idx. valid_index (remove_axis d (shape p)) idx \<longrightarrow>
      sum_list (class_lane p d idx) = sum_list (class_lane t d idx)"
  note h = rps_inputsD [OF inp]
  from rps_floating_elem [OF h] obtain r where
    r: "ranked_probability_score p t class_dim = Inr r" by blast
  have rp: "reverse p class_dim = Inr (p\<lparr>data := reverse_payload d (data p)\<rparr>)"
    using h(4) by (rule reverse_Inr)
  have rt: "reverse t class_dim = Inr (t\<lparr>data := reverse_payload d (data t)\<rparr>)"
    using h(3,4) by (intro reverse_Inr) simp
  have "bind (reverse p class_dim) (\<lambda>p'. bind (reverse t class_dim) (\<lambda>t'.
           ranked_probability_score p' t' class_dim)) =
         ranked_probability_score p t class_dim"
    using tot by (intro rps_reverse [where d = d] h) blast
  then show "\<exists>p' t' r. reverse p class_dim = Inr p' \<and> reverse t class_dim = Inr t' \<and>
      ranked_probability_score p t class_dim = Inr r \<and>
      ranked_probability_score p' t' class_dim = Inr r"
    using r by (simp add: rp rt bind_def)
qed

theorem ranked_probability_score_reversal_witness:
  "rps_inputs example_predictions example_targets (- 1) 1 \<and>
   sum_list (class_lane example_predictions 1 [0]) = sum_list (class_lane example_targets 1 [0]) \<and>
   sum_list (class_lane example_predictions 1 [1]) = sum_list (class_lane example_targets 1 [1]) \<and>
   (\<exists>p' t' r. reverse example_predictions (- 1) = Inr p' \<and> reverse example_targets (- 1) = Inr t' \<and>
      ranked_probability_score example_predictions example_targets (- 1) = Inr r \<and>
      ranked_probability_score p' t' (- 1) = Inr r)"
proof -
  have s: "\<forall>idx. valid_index (remove_axis 1 (shape example_predictions)) idx \<longrightarrow>
      sum_list (class_lane example_predictions 1 idx) = sum_list (class_lane example_targets 1 idx)"
  proof (intro allI impI)
    fix idx assume "valid_index (remove_axis 1 (shape example_predictions)) idx"
    then have "idx = [0] \<or> idx = [1]" by (simp only: example_batch_index)
    then show "sum_list (class_lane example_predictions 1 idx) = sum_list (class_lane example_targets 1 idx)"
      by (elim disjE) (simp_all add: example_lanes del: One_nat_def)
  qed
  have l: "sum_list (class_lane example_predictions 1 [0]) =
        sum_list (class_lane example_targets 1 [0])"
      "sum_list (class_lane example_predictions 1 [1]) =
        sum_list (class_lane example_targets 1 [1])"
    by (simp_all add: example_lanes del: One_nat_def)
  from ranked_probability_score_reversal [of example_predictions example_targets "- 1" 1]
    example_inputs s l
  show ?thesis by blast
qed

text \<open>
  C9. With floating-point predictions and integer targets of one shape,
  \<open>ranked_probability_score\<close> returns the score computed on the targets converted to
  the dtype of the predictions: the result has the predictions' dtype, its value at
  every batch index is the score of the prediction vector against the target vector
  read as real numbers, and it is the result of the call on the targets cast
  beforehand. The cast is what makes the subtraction possible: on the uncast cumulative
  sums the framework's subtraction fails. Prediction \<open>[1/2,1/2]\<close> against the integer
  target \<open>[1,0]\<close> scores 1/4.
\<close>

theorem ranked_probability_score_coerces_targets:
  "(rps_inputs p t class_dim d \<and> is_integer (dtype t) \<longrightarrow>
      (\<exists>r. ranked_probability_score p t class_dim = Inr r \<and>
         ranked_probability_score p (cast t (dtype p)) class_dim = Inr r \<and>
         well_formed r \<and> shape r = remove_axis d (shape p) \<and> dtype r = dtype p \<and>
         (\<forall>idx. valid_index (shape r) idx \<longrightarrow>
            value_at r idx =
              rps_spec (class_lane p d idx) (map real_of_int (int_class_lane t d idx)) \<and>
            class_lane (cast t (dtype p)) d idx = map real_of_int (int_class_lane t d idx))) \<and>
      well_formed (cast t (dtype p)) \<and> dtype (cast t (dtype p)) = dtype p \<and>
      shape (cast t (dtype p)) = shape t \<and>
      (\<exists>a b. cumsum p class_dim = Inr a \<and> cumsum t class_dim = Inr b \<and>
         subtract a b = Inl DTypeMismatch)) \<and>
   (is_floating (dtype p) \<and> is_integer (dtype t) \<longrightarrow>
      ranked_probability_score p t class_dim =
        ranked_probability_score p (cast t (dtype p)) class_dim) \<and>
   ranked_probability_score (float_vector DT_FLOAT [1/2, 1/2]) (int32_vector [1, 0]) 0 =
     Inr (float_scalar DT_FLOAT (1/4))"
proof (intro conjI impI)
  assume a: "rps_inputs p t class_dim d \<and> is_integer (dtype t)"
  then have inp: "rps_inputs p t class_dim d" and it: "is_integer (dtype t)" by blast+
  note h = rps_inputsD [OF inp]
  have d: "d < length (shape t)" using normalize_axis_less [OF h(4)] h(3) by simp
  have same: "ranked_probability_score p t class_dim =
      ranked_probability_score p (cast t (dtype p)) class_dim"
  proof -
    have "dtype (cast t (dtype p)) = dtype p" by (rule dtype_cast)
    moreover have "\<not> is_integer (dtype p)" using h(5) by (cases "dtype p") simp_all
    moreover have "get_shape (cast t (dtype p)) = get_shape t"
      by (simp add: get_shape_def cast_def)
    ultimately show ?thesis
      using h(5) it by (simp add: ranked_probability_score_def)
  qed
  from rps_floating_elem [OF h] obtain r where
    r: "ranked_probability_score p t class_dim = Inr r" "well_formed r"
      "shape r = remove_axis d (shape p)" "dtype r = dtype p"
      "\<And>idx. valid_index (shape r) idx \<Longrightarrow>
         value_at r idx = rps_spec (class_lane p d idx) (class_lane t d idx)"
    by blast
  have lanes: "class_lane t d idx = map real_of_int (int_class_lane t d idx)"
    if "valid_index (shape r) idx" for idx
    using h(2) it d by (rule class_lane_integer) (use that r(3) h(3) in simp)
  have "value_at r idx =
        rps_spec (class_lane p d idx) (map real_of_int (int_class_lane t d idx)) \<and>
      class_lane (cast t (dtype p)) d idx = map real_of_int (int_class_lane t d idx)"
    if v: "valid_index (shape r) idx" for idx
    using r(5) [OF v] lanes [OF v] h(5) by (simp add: class_lane_cast)
  then show "\<exists>r. ranked_probability_score p t class_dim = Inr r \<and>
         ranked_probability_score p (cast t (dtype p)) class_dim = Inr r \<and>
         well_formed r \<and> shape r = remove_axis d (shape p) \<and> dtype r = dtype p \<and>
         (\<forall>idx. valid_index (shape r) idx \<longrightarrow>
            value_at r idx =
              rps_spec (class_lane p d idx) (map real_of_int (int_class_lane t d idx)) \<and>
            class_lane (cast t (dtype p)) d idx = map real_of_int (int_class_lane t d idx))"
    using r(1,2,3,4) same by auto
  show "well_formed (cast t (dtype p))" using h(2,5) by (rule well_formed_cast)
  show "dtype (cast t (dtype p)) = dtype p" by (rule dtype_cast)
  show "shape (cast t (dtype p)) = shape t" by (simp add: cast_def)
  show "\<exists>a b. cumsum p class_dim = Inr a \<and> cumsum t class_dim = Inr b \<and>
         subtract a b = Inl DTypeMismatch"
    using h(4,3,5) it by (rule subtract_uncast)
next
  assume a: "is_floating (dtype p) \<and> is_integer (dtype t)"
  have "dtype (cast t (dtype p)) = dtype p" by (rule dtype_cast)
  moreover have "\<not> is_integer (dtype p)" using a by (cases "dtype p") simp_all
  moreover have "get_shape (cast t (dtype p)) = get_shape t"
    by (simp add: get_shape_def cast_def)
  ultimately show "ranked_probability_score p t class_dim =
        ranked_probability_score p (cast t (dtype p)) class_dim"
    using a by (simp add: ranked_probability_score_def)
next
  have s: "rps_spec [1/2, 1/2] [1, 0] = 1/4"
    by (simp add: rps_spec_def cdf_def power2_eq_square numeral_2_eq_2)
  have l: "class_lane (int32_vector [1, 0]) 0 [] = [1, 0]"
    by (simp add: class_lane_def int32_vector_def lane_def insert_axis_def upt_conv_Cons)
  have "ranked_probability_score (float_vector DT_FLOAT [1/2, 1/2]) (int32_vector [1, 0]) 0 =
      Inr (float_scalar DT_FLOAT (rps_spec [1/2, 1/2] [1, 0]))"
    using rps_rank1 [of "float_vector DT_FLOAT [1/2, 1/2]" "int32_vector [1, 0]" 2] l
    by simp
  then show
    "ranked_probability_score (float_vector DT_FLOAT [1/2, 1/2]) (int32_vector [1, 0]) 0 =
       Inr (float_scalar DT_FLOAT (1/4))"
    by (simp only: s)
qed

theorem ranked_probability_score_coerces_targets_witness:
  "rps_inputs example_predictions example_targets (- 1) 1 \<and>
   is_integer (dtype example_targets) \<and>
   (\<exists>r. ranked_probability_score example_predictions example_targets (- 1) = Inr r \<and>
      ranked_probability_score example_predictions
        (cast example_targets (dtype example_predictions)) (- 1) = Inr r \<and>
      dtype r = dtype example_predictions \<and>
      (\<forall>idx. valid_index (shape r) idx \<longrightarrow>
         value_at r idx =
           rps_spec (class_lane example_predictions 1 idx)
             (map real_of_int (int_class_lane example_targets 1 idx)))) \<and>
   (\<exists>a b. cumsum example_predictions (- 1) = Inr a \<and> cumsum example_targets (- 1) = Inr b \<and>
      subtract a b = Inl DTypeMismatch)"
proof -
  have i: "is_integer (dtype example_targets)"
    by (simp add: dtype_def example_targets_def)
  from ranked_probability_score_coerces_targets [of example_predictions example_targets "- 1" 1]
    example_inputs i
  show ?thesis by blast
qed

text \<open>
  C10. For floating-point predictions, every value \<open>ranked_probability_score\<close>
  returns is non-negative, also when the inputs are not probability vectors; for integer
  predictions and targets of one dtype the value is the exact score, and non-negative,
  whenever the exact score does not exceed the largest value of the dtype. Without the
  distribution precondition the bound \<open>K - 1\<close> can fail: with \<open>K = 2\<close>, prediction
  \<open>[2,0]\<close> and target \<open>[0,0]\<close> score 8. As stated for every pair of numeric inputs
  the property fails: the int32 prediction \<open>[46341]\<close> against \<open>[0]\<close> gives
  -2147479015.
\<close>

theorem ranked_probability_score_nonneg:
  "(rps_inputs p t class_dim d \<longrightarrow>
    (\<exists>r. ranked_probability_score p t class_dim = Inr r \<and>
       (\<forall>idx. valid_index (shape r) idx \<longrightarrow> 0 \<le> value_at r idx))) \<and>
   (int_inputs p t class_dim d \<and>
    (\<forall>idx. valid_index (remove_axis d (shape p)) idx \<longrightarrow>
       ring_rps (int_class_lane p d idx) (int_class_lane t d idx) \<le> int_max (dtype p)) \<longrightarrow>
    (\<exists>r. ranked_probability_score p t class_dim = Inr r \<and>
       (\<forall>idx. valid_index (shape r) idx \<longrightarrow>
          0 \<le> value_at r idx \<and>
          value_at r idx =
            real_of_int (ring_rps (int_class_lane p d idx) (int_class_lane t d idx))))) \<and>
   ranked_probability_score (float_vector DT_FLOAT [2, 0]) (float_vector DT_FLOAT [0, 0]) 0 =
     Inr (float_scalar DT_FLOAT 8) \<and>
   real (length [2::real, 0]) - 1 < 8"
proof (intro conjI impI)
  assume inp: "rps_inputs p t class_dim d"
  note h = rps_inputsD [OF inp]
  from rps_floating_elem [OF h] obtain r where
    r: "ranked_probability_score p t class_dim = Inr r"
      "\<And>idx. valid_index (shape r) idx \<Longrightarrow>
         value_at r idx = rps_spec (class_lane p d idx) (class_lane t d idx)"
    by blast
  show "\<exists>r. ranked_probability_score p t class_dim = Inr r \<and>
       (\<forall>idx. valid_index (shape r) idx \<longrightarrow> 0 \<le> value_at r idx)"
    using r by (auto simp: rps_spec_nonneg)
next
  assume a: "int_inputs p t class_dim d \<and>
    (\<forall>idx. valid_index (remove_axis d (shape p)) idx \<longrightarrow>
       ring_rps (int_class_lane p d idx) (int_class_lane t d idx) \<le> int_max (dtype p))"
  then have inp: "int_inputs p t class_dim d"
    and fits: "\<And>idx. valid_index (remove_axis d (shape p)) idx \<Longrightarrow>
       ring_rps (int_class_lane p d idx) (int_class_lane t d idx) \<le> int_max (dtype p)"
    by blast+
  note h = int_inputsD [OF inp]
  from rps_integer_elem [OF inp] obtain r where
    r: "ranked_probability_score p t class_dim = Inr r" "well_formed r"
      "shape r = remove_axis d (shape p)" "dtype r = dtype p"
      "\<And>idx. valid_index (shape r) idx \<Longrightarrow>
         int_value_at r idx =
           wrap (dtype p) (ring_rps (int_class_lane p d idx) (int_class_lane t d idx))"
    by blast
  have "0 \<le> value_at r idx \<and>
      value_at r idx = real_of_int (ring_rps (int_class_lane p d idx) (int_class_lane t d idx))"
    if v: "valid_index (shape r) idx" for idx
  proof -
    let ?n = "ring_rps (int_class_lane p d idx) (int_class_lane t d idx)"
    have n: "0 \<le> ?n" by (rule ring_rps_nonneg)
    have "?n \<le> int_max (dtype p)" using fits v r(3) by simp
    then have "wrap (dtype p) ?n = ?n" using h(5) n by (intro wrap_fits)
    then have "int_value_at r idx = ?n" using r(5) [OF v] by simp
    moreover have "value_at r idx = real_of_int (int_value_at r idx)"
      using r(2) _ v by (rule value_at_integer) (simp add: r(4) h(5))
    ultimately show ?thesis using n by simp
  qed
  then show "\<exists>r. ranked_probability_score p t class_dim = Inr r \<and>
       (\<forall>idx. valid_index (shape r) idx \<longrightarrow>
          0 \<le> value_at r idx \<and>
          value_at r idx =
            real_of_int (ring_rps (int_class_lane p d idx) (int_class_lane t d idx)))"
    using r(1) by blast
next
  show "ranked_probability_score (float_vector DT_FLOAT [2, 0]) (float_vector DT_FLOAT [0, 0]) 0 =
     Inr (float_scalar DT_FLOAT 8)"
    by (simp add: ranked_probability_score_def compatible_get_shape float_vector_def
        float_scalar_def floats_def dtype_def cumsum_def normalize_axis_def bind_def
        subtract_def broadcast_shape_def lift2_def square_def reduce_sum_def remove_axis_def
        Let_def)
next
  show "real (length [2::real, 0]) - 1 < 8" by simp
qed

theorem ranked_probability_score_nonneg_witness:
  "rps_inputs example_predictions example_targets (- 1) 1 \<and>
   (\<exists>r. ranked_probability_score example_predictions example_targets (- 1) = Inr r \<and>
       (\<forall>idx. valid_index (shape r) idx \<longrightarrow> 0 \<le> value_at r idx)) \<and>
   int_inputs example_int_predictions example_targets (- 1) 1 \<and>
   ring_rps (int_class_lane example_int_predictions 1 [0]) (int_class_lane example_targets 1 [0])
     \<le> int_max (dtype example_int_predictions) \<and>
   ring_rps (int_class_lane example_int_predictions 1 [1]) (int_class_lane example_targets 1 [1])
     \<le> int_max (dtype example_int_predictions) \<and>
   (\<exists>r. ranked_probability_score example_int_predictions example_targets (- 1) = Inr r \<and>
       (\<forall>idx. valid_index (shape r) idx \<longrightarrow>
          0 \<le> value_at r idx \<and>
          value_at r idx =
            real_of_int (ring_rps (int_class_lane example_int_predictions 1 idx)
                           (int_class_lane example_targets 1 idx))))"
proof -
  have dt: "dtype example_int_predictions = DT_INT32"
    by (simp add: dtype_def example_int_predictions_def)
  have l: "ring_rps (int_class_lane example_int_predictions 1 [0])
        (int_class_lane example_targets 1 [0]) \<le> int_max (dtype example_int_predictions)"
      "ring_rps (int_class_lane example_int_predictions 1 [1])
        (int_class_lane example_targets 1 [1]) \<le> int_max (dtype example_int_predictions)"
    by (simp_all add: example_int_lanes example_int_scores int_max_def dt
        del: One_nat_def)
  have f: "\<forall>idx. valid_index (remove_axis 1 (shape example_int_predictions)) idx \<longrightarrow>
      ring_rps (int_class_lane example_int_predictions 1 idx)
        (int_class_lane example_targets 1 idx) \<le> int_max (dtype example_int_predictions)"
  proof (intro allI impI)
    fix idx assume "valid_index (remove_axis 1 (shape example_int_predictions)) idx"
    then have "idx = [0] \<or> idx = [1]" by (simp only: example_int_batch_index)
    then show "ring_rps (int_class_lane example_int_predictions 1 idx)
        (int_class_lane example_targets 1 idx) \<le> int_max (dtype example_int_predictions)"
      using l by blast
  qed
  from ranked_probability_score_nonneg [of example_predictions example_targets "- 1" 1]
    ranked_probability_score_nonneg [of example_int_predictions example_targets "- 1" 1]
    example_inputs example_int_inputs f l
  show ?thesis by blast
qed

theorem ranked_probability_score_nonneg_counterexample:
  "ranked_probability_score (int32_vector [46341]) (int32_vector [0]) 0 =
     Inr (int32_scalar (- 2147479015)) \<and>
   value_at (int32_scalar (- 2147479015)) [] < 0"
proof (intro conjI)
  show "ranked_probability_score (int32_vector [46341]) (int32_vector [0]) 0 =
     Inr (int32_scalar (- 2147479015))"
    by (simp add: ranked_probability_score_def compatible_get_shape
        int32_vector_def int32_scalar_def
        dtype_def cumsum_def normalize_axis_def bind_def
        subtract_def broadcast_shape_def lift2_def square_def reduce_sum_def remove_axis_def
        Let_def)
  show "value_at (int32_scalar (- 2147479015)) [] < 0"
    by (simp add: value_at_def int32_scalar_def)
qed

end
